theory Spec2Isabelle
  imports Complex_Main "HOL-Library.AList" "HOL-Library.Sublist"
begin

section \<open>Python values used by the analysed modules\<close>

text \<open>
  The modules \<^verbatim>\<open>doc_parser.py\<close>, \<^verbatim>\<open>redfalg_checker.py\<close> and \<^verbatim>\<open>app.py\<close> work on
  Python strings, lists and insertion-ordered dictionaries. A text is modelled as a list
  of characters whose code points lie in the 8-bit range; dictionaries are association
  lists in insertion order (assignment to an existing key keeps its position, assignment
  to a new key appends), which is what \<^const>\<open>AList.update\<close> does.

  The only exception raised implicitly by the modelled code is the \<^verbatim>\<open>ValueError\<close> of
  \<^verbatim>\<open>max\<close> on an empty sequence and the \<^verbatim>\<open>ZeroDivisionError\<close> of a division; both are
  kept as branches of the model.
\<close>

datatype py_error = ValueError | ZeroDivisionError | KeyError

subsection \<open>\<^verbatim>\<open>str.lower\<close> and the \<^verbatim>\<open>in\<close> operator on strings\<close>

text \<open>
  \<^verbatim>\<open>str.lower\<close> on code points below 256: the letters A-Z and the upper-case letters
  of the Latin-1 block (0xC0-0xDE without the multiplication sign 0xD7) move up by 32,
  every other character is unchanged. The model is exact on these code points. Beyond
  them the lower-case copy of a text can be longer than the text (U+0130 becomes two
  characters), so an offset into the copy need not be an offset into the text; the
  properties of the checks that search the copy are stated on the copy.
\<close>

definition lower_char :: "char \<Rightarrow> char" where
  "lower_char c =
     (let n = (of_char c :: nat)
      in if (65 \<le> n \<and> n \<le> 90) \<or> (192 \<le> n \<and> n \<le> 222 \<and> n \<noteq> 215)
         then char_of (n + 32) else c)"

definition lower :: "string \<Rightarrow> string" where
  "lower s = map lower_char s"

text \<open>\<^verbatim>\<open>k in t\<close> for strings: \<open>k\<close> occurs in \<open>t\<close> as a contiguous block.\<close>

fun str_in :: "string \<Rightarrow> string \<Rightarrow> bool" where
  "str_in k [] = (k = [])"
| "str_in k (c # cs) = (prefix k (c # cs) \<or> str_in k cs)"

subsection \<open>\<^verbatim>\<open>max(seq, key=f)\<close>\<close>

text \<open>
  Python's \<^verbatim>\<open>max\<close> keeps the first of several maximal elements: the running best is
  replaced only by a strictly greater key. On an empty sequence it raises.
\<close>

definition max_step :: "('a \<Rightarrow> 'k::linorder) \<Rightarrow> 'a \<Rightarrow> 'a \<Rightarrow> 'a" where
  "max_step key y best = (if key best < key y then y else best)"

definition py_max_by :: "('a \<Rightarrow> 'k::linorder) \<Rightarrow> 'a list \<Rightarrow> py_error + 'a" where
  "py_max_by key xs =
     (case xs of [] \<Rightarrow> Inl ValueError | x # rest \<Rightarrow> Inr (fold (max_step key) rest x))"

section \<open>\<^verbatim>\<open>doc_parser.py\<close>: the classifier\<close>

text \<open>The table \<^verbatim>\<open>self.document_types\<close> of \<^verbatim>\<open>DocumentParser.__init__\<close>, in source order.\<close>

definition document_types :: "(string \<times> string list) list" where
  "document_types =
   [(''Articles of Association'',
       [''articles of association'', ''articles'', ''aoa'', ''company constitution'',
        ''share capital'', ''shareholders'', ''directors'', ''objects clause'']),
    (''Memorandum of Association'',
       [''memorandum of association'', ''memorandum'', ''moa'', ''mou'',
        ''company name'', ''registered office'', ''objects'']),
    (''Board Resolution'',
       [''board resolution'', ''directors resolution'', ''board meeting'',
        ''directors meeting'', ''resolution of directors'']),
    (''Shareholder Resolution'',
       [''shareholder resolution'', ''shareholders resolution'', ''general meeting'',
        ''extraordinary general meeting'', ''egm'', ''agm'']),
    (''Incorporation Application'',
       [''incorporation application'', ''application for incorporation'',
        ''company registration'', ''registration application'']),
    (''UBO Declaration'',
       [''ubo declaration'', ''ultimate beneficial owner'', ''beneficial owner'',
        ''ownership declaration'', ''shareholder declaration'']),
    (''Register of Members and Directors'',
       [''register of members'', ''register of directors'', ''members register'',
        ''directors register'', ''shareholder register'']),
    (''Change of Registered Address'',
       [''change of address'', ''registered address'', ''address change'',
        ''change of registered office'']),
    (''Employment Contract'',
       [''employment contract'', ''employment agreement'', ''service agreement'',
        ''terms of employment'', ''employee contract'']),
    (''Licensing Application'',
       [''licensing application'', ''license application'', ''regulatory filing'',
        ''compliance filing'', ''regulatory application'']),
    (''Commercial Agreement'',
       [''commercial agreement'', ''commercial contract'', ''business agreement'',
        ''service agreement'', ''supply agreement'']),
    (''Compliance Policy'',
       [''compliance policy'', ''risk policy'', ''compliance framework'',
        ''risk management'', ''compliance manual''])]"

text \<open>
  The inner loop of \<^verbatim>\<open>identify_document_type\<close>: \<^verbatim>\<open>score += 1\<close> for every keyword
  with \<^verbatim>\<open>keyword in text_lower\<close>.
\<close>

fun keyword_score :: "string list \<Rightarrow> string \<Rightarrow> nat" where
  "keyword_score [] text_lower = 0"
| "keyword_score (keyword # keywords) text_lower =
     (if str_in keyword text_lower then 1 else 0) + keyword_score keywords text_lower"

text \<open>
  \<^verbatim>\<open>score / len(keywords) if keywords else 0\<close>. The quotient of the two small
  integers is kept as an exact rational. The division raises for a zero divisor; the
  guard of the source makes that branch unreachable, and the model keeps both.
\<close>

definition py_truediv :: "nat \<Rightarrow> nat \<Rightarrow> py_error + rat" where
  "py_truediv a b = (if b = 0 then Inl ZeroDivisionError else Inr (of_nat a / of_nat b))"

definition type_score :: "string list \<Rightarrow> string \<Rightarrow> py_error + rat" where
  "type_score keywords text_lower =
     (if keywords \<noteq> [] then py_truediv (keyword_score keywords text_lower) (length keywords)
      else Inr 0)"

text \<open>
  The outer loop fills the dictionary \<^verbatim>\<open>scores\<close>, one assignment per table entry; an
  exception of a loop body ends the loop.
\<close>

fun fill_scores ::
  "(string \<times> string list) list \<Rightarrow> string \<Rightarrow> (string \<times> rat) list \<Rightarrow>
   py_error + (string \<times> rat) list" where
  "fill_scores [] text_lower scores = Inr scores"
| "fill_scores ((doc_type, keywords) # table) text_lower scores =
     (case type_score keywords text_lower of
        Inl e \<Rightarrow> Inl e
      | Inr v \<Rightarrow> fill_scores table text_lower (AList.update doc_type v scores))"

definition identify_document_type :: "string \<Rightarrow> py_error + (string \<times> rat)" where
  "identify_document_type text =
     (let text_lower = lower text
      in case fill_scores document_types text_lower [] of
           Inl e \<Rightarrow> Inl e
         | Inr scores \<Rightarrow> py_max_by snd scores)"

text \<open>
  The specification's reading of the confidence of one table entry: the number of its
  keywords that occur in the text as case-insensitive substrings, divided by the number
  of its keywords.
\<close>

definition ci_substring :: "string \<Rightarrow> string \<Rightarrow> bool" where
  "ci_substring k text \<longleftrightarrow> (\<exists>pre post. lower text = pre @ lower k @ post)"

definition spec_confidence :: "string list \<Rightarrow> string \<Rightarrow> rat" where
  "spec_confidence keywords text =
     of_nat (length (filter (\<lambda>k. ci_substring k text) keywords)) / of_nat (length keywords)"

text \<open>The contents of \<^verbatim>\<open>scores\<close> after the loop, when no key repeats in the table.\<close>

definition code_scores :: "string \<Rightarrow> (string \<times> rat) list" where
  "code_scores text =
     map (\<lambda>(t, ks). (t, of_nat (keyword_score ks (lower text)) / of_nat (length ks)))
       document_types"

section \<open>\<^verbatim>\<open>doc_parser.py\<close>: the process detector\<close>

text \<open>
  The table \<^verbatim>\<open>process_requirements\<close> of \<^verbatim>\<open>get_required_documents_for_process\<close>;
  \<^verbatim>\<open>process_requirements.get(process, [])\<close> returns the empty list for an unknown
  process.
\<close>

definition process_requirements :: "(string \<times> string list) list" where
  "process_requirements =
   [(''Company Incorporation'',
       [''Articles of Association'', ''Memorandum of Association'',
        ''Incorporation Application'', ''UBO Declaration'',
        ''Register of Members and Directors'']),
    (''Company Licensing'',
       [''Licensing Application'', ''Articles of Association'',
        ''Memorandum of Association'', ''UBO Declaration'', ''Compliance Policy'']),
    (''Employment Setup'',
       [''Employment Contract'', ''Board Resolution'', ''Compliance Policy'']),
    (''Commercial Agreement'',
       [''Commercial Agreement'', ''Board Resolution'', ''Shareholder Resolution''])]"

definition get_required_documents_for_process :: "string \<Rightarrow> string list" where
  "get_required_documents_for_process process =
     (case map_of process_requirements process of None \<Rightarrow> [] | Some docs \<Rightarrow> docs)"

text \<open>
  \<^verbatim>\<open>d[k] += 1\<close> on a dictionary of counters: a missing key raises \<^verbatim>\<open>KeyError\<close>, a
  present key keeps its position.
\<close>

definition dict_incr :: "string \<Rightarrow> (string \<times> nat) list \<Rightarrow> py_error + (string \<times> nat) list" where
  "dict_incr k d =
     (case map_of d k of None \<Rightarrow> Inl KeyError | Some v \<Rightarrow> Inr (AList.update k (v + 1) d))"

text \<open>One guarded increment of the loop body; a raised exception is passed on.\<close>

definition vote_if ::
  "bool \<Rightarrow> string \<Rightarrow> py_error + (string \<times> nat) list \<Rightarrow> py_error + (string \<times> nat) list" where
  "vote_if cond process r =
     (case r of Inl e \<Rightarrow> Inl e
      | Inr scores \<Rightarrow> if cond then dict_incr process scores else Inr scores)"

text \<open>The body of the loop of \<^verbatim>\<open>detect_process_from_documents\<close>: four independent tests.\<close>

definition vote_document :: "string \<Rightarrow> (string \<times> nat) list \<Rightarrow> py_error + (string \<times> nat) list" where
  "vote_document doc_type process_scores =
     (let r1 = vote_if (doc_type \<in> set [''Articles of Association'', ''Memorandum of Association'',
                                          ''Incorporation Application''])
                 ''Company Incorporation'' (Inr process_scores);
          r2 = vote_if (doc_type \<in> set [''Licensing Application'', ''Compliance Policy''])
                 ''Company Licensing'' r1;
          r3 = vote_if (doc_type \<in> set [''Employment Contract'']) ''Employment Setup'' r2
      in vote_if (doc_type \<in> set [''Commercial Agreement'']) ''Commercial Agreement'' r3)"

fun vote_documents ::
  "string list \<Rightarrow> (string \<times> nat) list \<Rightarrow> py_error + (string \<times> nat) list" where
  "vote_documents [] process_scores = Inr process_scores"
| "vote_documents (doc_type # rest) process_scores =
     (case vote_document doc_type process_scores of
        Inl e \<Rightarrow> Inl e
      | Inr scores' \<Rightarrow> vote_documents rest scores')"

definition initial_process_scores :: "(string \<times> nat) list" where
  "initial_process_scores =
     [(''Company Incorporation'', 0), (''Company Licensing'', 0),
      (''Employment Setup'', 0), (''Commercial Agreement'', 0)]"

definition detect_process_from_documents :: "string list \<Rightarrow> py_error + string" where
  "detect_process_from_documents doc_types =
     (case vote_documents doc_types initial_process_scores of
        Inl e \<Rightarrow> Inl e
      | Inr process_scores \<Rightarrow>
          (case py_max_by snd process_scores of
             Inl e \<Rightarrow> Inl e
           | Inr best \<Rightarrow> Inr (fst best)))"

text \<open>
  The missing documents as \<^verbatim>\<open>process_documents\<close> of \<^verbatim>\<open>app.py\<close> computes them:
  \<^verbatim>\<open>[doc for doc in required_docs if doc not in uploaded_doc_types]\<close>.
\<close>

definition missing_docs_of :: "string list \<Rightarrow> string list \<Rightarrow> string list" where
  "missing_docs_of required_docs uploaded_doc_types =
     filter (\<lambda>doc. doc \<notin> set uploaded_doc_types) required_docs"

text \<open>The votes of a process as the specification counts them.\<close>

definition voting_types :: "(string \<times> string list) list" where
  "voting_types =
     [(''Company Incorporation'',
         [''Articles of Association'', ''Memorandum of Association'',
          ''Incorporation Application'']),
      (''Company Licensing'', [''Licensing Application'', ''Compliance Policy'']),
      (''Employment Setup'', [''Employment Contract'']),
      (''Commercial Agreement'', [''Commercial Agreement''])]"

definition votes :: "string list \<Rightarrow> string list \<Rightarrow> nat" where
  "votes voters doc_types = length (filter (\<lambda>t. t \<in> set voters) doc_types)"

section \<open>Regular expressions of the pattern library\<close>

text \<open>
  The patterns of \<^verbatim>\<open>redfalg_checker.py\<close> are sequences of single-character items
  (a literal, \<^verbatim>\<open>\s\<close>, \<^verbatim>\<open>\d\<close> or \<^verbatim>\<open>.\<close>), each taken once or under one of the greedy
  quantifiers \<^verbatim>\<open>?\<close>, \<^verbatim>\<open>*\<close>, \<^verbatim>\<open>+\<close>. The matcher below is the backtracking matcher
  of Python's \<^verbatim>\<open>re\<close> on this fragment: a greedy quantifier first takes as many
  characters as it can and gives them back one at a time while the rest of the pattern
  fails.
\<close>

datatype cls = Lit char | Space | Digit | AnyChar

datatype quant = One | Opt | Star | Plus

type_synonym regex = "(cls \<times> quant) list"

text \<open>
  \<^verbatim>\<open>\s\<close> and \<^verbatim>\<open>\d\<close> of a Unicode pattern, on code points below 256: the white space
  characters are 9-13, 28-32, 133 and 160; the decimal digits are 0-9.
\<close>

definition is_space :: "char \<Rightarrow> bool" where
  "is_space c =
     (let n = (of_char c :: nat)
      in (9 \<le> n \<and> n \<le> 13) \<or> (28 \<le> n \<and> n \<le> 32) \<or> n = 133 \<or> n = 160)"

definition is_digit :: "char \<Rightarrow> bool" where
  "is_digit c = (let n = (of_char c :: nat) in 48 \<le> n \<and> n \<le> 57)"

text \<open>
  One character against one item; \<open>ic\<close> is the flag \<^verbatim>\<open>re.IGNORECASE\<close>, under which a
  literal matches the characters with the same lower-case form. The dot does not match
  a newline.
\<close>

fun cls_ok :: "bool \<Rightarrow> cls \<Rightarrow> char \<Rightarrow> bool" where
  "cls_ok ic (Lit l) c = (if ic then lower_char c = lower_char l else c = l)"
| "cls_ok ic Space c = is_space c"
| "cls_ok ic Digit c = is_digit c"
| "cls_ok ic AnyChar c = (c \<noteq> CHR 0x0A)"

text \<open>
  \<open>match_here ic p s\<close> is the length of the match of \<open>p\<close> that starts at the beginning
  of \<open>s\<close> and that the backtracking search finds first, or \<open>None\<close>.
\<close>

fun match_here :: "bool \<Rightarrow> regex \<Rightarrow> string \<Rightarrow> nat option" where
  "match_here ic [] s = Some 0"
| "match_here ic ((c, One) # p) [] = None"
| "match_here ic ((c, One) # p) (x # xs) =
     (if cls_ok ic c x then map_option Suc (match_here ic p xs) else None)"
| "match_here ic ((c, Plus) # p) [] = None"
| "match_here ic ((c, Plus) # p) (x # xs) =
     (if cls_ok ic c x then map_option Suc (match_here ic ((c, Star) # p) xs) else None)"
| "match_here ic ((c, Star) # p) [] = match_here ic p []"
| "match_here ic ((c, Star) # p) (x # xs) =
     (if cls_ok ic c x
      then (case match_here ic ((c, Star) # p) xs of
              Some n \<Rightarrow> Some (Suc n)
            | None \<Rightarrow> match_here ic p (x # xs))
      else match_here ic p (x # xs))"
| "match_here ic ((c, Opt) # p) [] = match_here ic p []"
| "match_here ic ((c, Opt) # p) (x # xs) =
     (if cls_ok ic c x
      then (case match_here ic p xs of
              Some n \<Rightarrow> Some (Suc n)
            | None \<Rightarrow> match_here ic p (x # xs))
      else match_here ic p (x # xs))"

text \<open>\<^verbatim>\<open>re.search\<close>: the match at the leftmost position that has one, as (start, end).\<close>

fun re_search_from :: "bool \<Rightarrow> regex \<Rightarrow> string \<Rightarrow> nat \<Rightarrow> (nat \<times> nat) option" where
  "re_search_from ic p [] pos = map_option (\<lambda>n. (pos, pos + n)) (match_here ic p [])"
| "re_search_from ic p (x # xs) pos =
     (case match_here ic p (x # xs) of
        Some n \<Rightarrow> Some (pos, pos + n)
      | None \<Rightarrow> re_search_from ic p xs (Suc pos))"

definition re_search :: "bool \<Rightarrow> regex \<Rightarrow> string \<Rightarrow> (nat \<times> nat) option" where
  "re_search ic p s = re_search_from ic p s 0"

text \<open>
  \<^verbatim>\<open>re.finditer\<close>: the successive non-overlapping matches from left to right, the
  search resuming at the end of the previous match. After an empty match the search
  moves on by one character.
\<close>

function re_finditer_from :: "bool \<Rightarrow> regex \<Rightarrow> string \<Rightarrow> nat \<Rightarrow> (nat \<times> nat) list" where
  "re_finditer_from ic p s pos =
     (case match_here ic p s of
        None \<Rightarrow> (case s of [] \<Rightarrow> [] | x # xs \<Rightarrow> re_finditer_from ic p xs (Suc pos))
      | Some n \<Rightarrow>
          if n = 0
          then (pos, pos) # (case s of [] \<Rightarrow> [] | x # xs \<Rightarrow> re_finditer_from ic p xs (Suc pos))
          else (pos, pos + n) # re_finditer_from ic p (drop n s) (pos + n))"
  by pat_completeness auto
termination
proof (relation "measure (\<lambda>(ic, p, s, pos). length s)")
  show "wf (measure (\<lambda>(ic, p, s, pos). length s))" by simp
next
  fix ic p s pos x xs
  assume "s = x # xs"
  then show "((ic, p, xs, Suc pos), (ic, p, s, pos)) \<in> measure (\<lambda>(ic, p, s, pos). length s)"
    by simp
next
  fix ic p s pos n x xs
  assume "s = x # xs"
  then show "((ic, p, xs, Suc pos), (ic, p, s, pos)) \<in> measure (\<lambda>(ic, p, s, pos). length s)"
    by simp
next
  fix ic p s pos n
  assume m: "match_here ic p s = Some n" and n: "n \<noteq> 0"
  have "\<And>k. match_here ic p s = Some k \<Longrightarrow> k \<le> length s"
    by (induction ic p s rule: match_here.induct)
       (auto split: if_splits option.splits)
  from this[OF m] n have "length s - n < length s" by simp
  then show "((ic, p, drop n s, pos + n), (ic, p, s, pos)) \<in> measure (\<lambda>(ic, p, s, pos). length s)"
    by simp
qed

declare re_finditer_from.simps [simp del]

definition re_finditer :: "bool \<Rightarrow> regex \<Rightarrow> string \<Rightarrow> (nat \<times> nat) list" where
  "re_finditer ic p s = re_finditer_from ic p s 0"

section \<open>\<^verbatim>\<open>redfalg_checker.py\<close>: the red-flag analyzer\<close>

text \<open>Building blocks for writing the patterns of the source.\<close>

definition lit :: "string \<Rightarrow> regex" where
  "lit s = map (\<lambda>c. (Lit c, One)) s"

definition ws1 :: regex where
  "ws1 = [(Space, Plus)]"

definition opt_s :: regex where
  "opt_s = [(Lit CHR ''s'', Opt)]"

definition any_star :: regex where
  "any_star = [(AnyChar, Star)]"

text \<open>The dictionary \<^verbatim>\<open>self.red_flags\<close>, in source order.\<close>

definition red_flags :: "(string \<times> regex list) list" where
  "red_flags =
   [(''jurisdiction_issues'',
       [lit ''UAE'' @ ws1 @ lit ''Federal'' @ ws1 @ lit ''Court'' @ opt_s,
        lit ''UAE'' @ ws1 @ lit ''Federal'' @ ws1 @ lit ''Law'',
        lit ''Federal'' @ ws1 @ lit ''Court'' @ opt_s @ ws1 @ lit ''of'' @ ws1 @ lit ''UAE'',
        lit ''UAE'' @ ws1 @ lit ''Commercial'' @ ws1 @ lit ''Court'' @ opt_s,
        lit ''governing'' @ ws1 @ lit ''law'' @ any_star @ lit ''UAE'',
        lit ''jurisdiction'' @ any_star @ lit ''UAE'' @ ws1 @ lit ''Federal'']),
    (''missing_clauses'',
       [lit ''objects'' @ ws1 @ lit ''clause'',
        lit ''share'' @ ws1 @ lit ''capital'',
        lit ''director'' @ opt_s @ ws1 @ lit ''appointment'',
        lit ''shareholder'' @ opt_s @ ws1 @ lit ''rights'',
        lit ''registered'' @ ws1 @ lit ''office'',
        lit ''company'' @ ws1 @ lit ''name'']),
    (''ambiguous_language'',
       [lit ''may'' @ ws1 @ lit ''or'' @ ws1 @ lit ''may'' @ ws1 @ lit ''not'',
        lit ''subject'' @ ws1 @ lit ''to'' @ ws1 @ lit ''approval'',
        lit ''as'' @ ws1 @ lit ''deemed'' @ ws1 @ lit ''appropriate'',
        lit ''reasonable'' @ ws1 @ lit ''discretion'',
        lit ''best'' @ ws1 @ lit ''efforts'',
        lit ''commercially'' @ ws1 @ lit ''reasonable'']),
    (''missing_signatures'',
       [lit ''signature'' @ ws1 @ lit ''block'',
        lit ''executed'' @ ws1 @ lit ''by'',
        lit ''signed'' @ ws1 @ lit ''by'',
        lit ''authorized'' @ ws1 @ lit ''signatory'',
        lit ''witness'' @ ws1 @ lit ''signature'']),
    (''incomplete_info'',
       [lit ''TBD'',
        lit ''to'' @ ws1 @ lit ''be'' @ ws1 @ lit ''determined'',
        lit ''to'' @ ws1 @ lit ''be'' @ ws1 @ lit ''agreed'',
        lit ''placeholder'',
        lit ''['' @ any_star @ lit '']'',
        lit ''__'' @ [(Lit CHR ''_'', Plus)]]),
    (''non_compliant_structures'',
       [lit ''bearer'' @ ws1 @ lit ''shares'',
        lit ''nominee'' @ ws1 @ lit ''director'',
        lit ''trust'' @ ws1 @ lit ''structure'',
        lit ''offshore'' @ ws1 @ lit ''company'',
        lit ''tax'' @ ws1 @ lit ''haven''])]"

text \<open>\<^verbatim>\<open>self.red_flags[key]\<close> for the keys the checks use, all of them in the table.\<close>

definition red_flag_patterns :: "string \<Rightarrow> regex list" where
  "red_flag_patterns key = (case map_of red_flags key of None \<Rightarrow> [] | Some ps \<Rightarrow> ps)"

text \<open>The dictionary \<^verbatim>\<open>self.adgm_requirements\<close>.\<close>

definition adgm_requirements :: "(string \<times> string list) list" where
  "adgm_requirements =
   [(''Articles of Association'',
       [''ADGM jurisdiction'', ''company objects'', ''share capital structure'',
        ''director appointment'', ''shareholder rights'', ''registered office'']),
    (''Memorandum of Association'',
       [''company name'', ''registered office'', ''objects clause'',
        ''liability of members'', ''capital structure'']),
    (''Board Resolution'',
       [''meeting date'', ''directors present'', ''resolution text'',
        ''voting results'', ''signature blocks'']),
    (''UBO Declaration'',
       [''beneficial owner details'', ''ownership percentages'', ''control structures'',
        ''declaration statements'', ''supporting documentation''])]"

text \<open>
  An issue is a dictionary with the keys \<^verbatim>\<open>type\<close>, \<^verbatim>\<open>severity\<close>, \<^verbatim>\<open>description\<close>,
  \<^verbatim>\<open>suggestion\<close>, \<^verbatim>\<open>adgm_reference\<close> and, for the checks that report a match,
  \<^verbatim>\<open>location\<close>.
\<close>

record issue =
  issue_type :: string
  severity :: string
  description :: string
  location :: "string option"
  suggestion :: string
  adgm_reference :: string

text \<open>\<^verbatim>\<open>str(n)\<close> for a position, and \<^verbatim>\<open>f"Position {match.start()}-{match.end()}"\<close>.\<close>

definition digit_char :: "nat \<Rightarrow> char" where
  "digit_char d = char_of (48 + d)"

fun str_nat :: "nat \<Rightarrow> string" where
  "str_nat n = (if n < 10 then [digit_char n] else str_nat (n div 10) @ [digit_char (n mod 10)])"

declare str_nat.simps [simp del]

definition position :: "nat \<times> nat \<Rightarrow> string" where
  "position m = ''Position '' @ str_nat (fst m) @ ''-'' @ str_nat (snd m)"

text \<open>\<^verbatim>\<open>match.group()\<close>: the matched part of the searched string.\<close>

definition group :: "string \<Rightarrow> nat \<times> nat \<Rightarrow> string" where
  "group s m = take (snd m - fst m) (drop (fst m) s)"

definition quoted :: "string \<Rightarrow> string" where
  "quoted s = [CHR 0x27] @ s @ [CHR 0x27]"

text \<open>
  The checks that report every match share one loop: for each pattern of a category, in
  table order, one issue per match of \<^verbatim>\<open>re.finditer(pattern, subject, re.IGNORECASE)\<close>.
\<close>

definition match_issues ::
  "string \<Rightarrow> string \<Rightarrow> (nat \<times> nat \<Rightarrow> issue) \<Rightarrow> issue list" where
  "match_issues key subject mk =
     concat (map (\<lambda>pattern. map mk (re_finditer True pattern subject)) (red_flag_patterns key))"

definition check_jurisdiction_issues :: "string \<Rightarrow> issue list" where
  "check_jurisdiction_issues text =
     (let text_lower = lower text
      in match_issues ''jurisdiction_issues'' text_lower
           (\<lambda>m. \<lparr>issue_type = ''jurisdiction_issue'', severity = ''High'',
                  description = ''Reference to UAE Federal Courts instead of ADGM'',
                  location = Some (position m),
                  suggestion = ''Replace with ADGM jurisdiction references'',
                  adgm_reference = ''ADGM Companies Regulations 2020, Article 6''\<rparr>))"

definition missing_clause_issue :: "string \<Rightarrow> issue" where
  "missing_clause_issue clause =
     \<lparr>issue_type = ''missing_clause'', severity = ''High'',
      description = ''Missing required clause: '' @ clause,
      location = None,
      suggestion = ''Add '' @ clause @ '' section to comply with ADGM requirements'',
      adgm_reference = ''ADGM Companies Regulations 2020''\<rparr>"

definition check_missing_clauses :: "string \<Rightarrow> string \<Rightarrow> issue list" where
  "check_missing_clauses text doc_type =
     (let text_lower = lower text
      in case map_of adgm_requirements doc_type of
           None \<Rightarrow> []
         | Some required_clauses \<Rightarrow>
             map missing_clause_issue
               (filter (\<lambda>clause. \<not> str_in (lower clause) text_lower) required_clauses))"

definition check_ambiguous_language :: "string \<Rightarrow> issue list" where
  "check_ambiguous_language text =
     (let text_lower = lower text
      in match_issues ''ambiguous_language'' text_lower
           (\<lambda>m. \<lparr>issue_type = ''ambiguous_language'', severity = ''Medium'',
                  description = ''Ambiguous language found: '' @ quoted (group text_lower m),
                  location = Some (position m),
                  suggestion = ''Replace with specific, binding language'',
                  adgm_reference = ''ADGM Companies Regulations 2020''\<rparr>))"

text \<open>
  The loop of \<^verbatim>\<open>check_missing_signatures\<close> stops at the first pattern that
  \<^verbatim>\<open>re.search\<close> finds.
\<close>

fun signature_found :: "regex list \<Rightarrow> string \<Rightarrow> bool" where
  "signature_found [] text_lower = False"
| "signature_found (pattern # rest) text_lower =
     (if re_search True pattern text_lower \<noteq> None then True
      else signature_found rest text_lower)"

definition check_missing_signatures :: "string \<Rightarrow> issue list" where
  "check_missing_signatures text =
     (let text_lower = lower text
      in if \<not> signature_found (red_flag_patterns ''missing_signatures'') text_lower
         then [\<lparr>issue_type = ''missing_signatures'', severity = ''High'',
                description = ''Missing signature section'',
                location = None,
                suggestion = ''Add proper signature blocks with witness signatures'',
                adgm_reference = ''ADGM Companies Regulations 2020''\<rparr>]
         else [])"

definition check_incomplete_info :: "string \<Rightarrow> issue list" where
  "check_incomplete_info text =
     match_issues ''incomplete_info'' text
       (\<lambda>m. \<lparr>issue_type = ''incomplete_info'', severity = ''Medium'',
              description = ''Incomplete information: '' @ quoted (group text m),
              location = Some (position m),
              suggestion = ''Complete all required information before submission'',
              adgm_reference = ''ADGM Companies Regulations 2020''\<rparr>)"

definition check_non_compliant_structures :: "string \<Rightarrow> issue list" where
  "check_non_compliant_structures text =
     (let text_lower = lower text
      in match_issues ''non_compliant_structures'' text_lower
           (\<lambda>m. \<lparr>issue_type = ''non_compliant_structure'', severity = ''High'',
                  description = ''Non-compliant structure: '' @ quoted (group text_lower m),
                  location = Some (position m),
                  suggestion = ''Review structure for ADGM compliance'',
                  adgm_reference = ''ADGM Companies Regulations 2020''\<rparr>))"

text \<open>
  \<^verbatim>\<open>text.split('\n\n')\<close>: the pieces between the successive non-overlapping
  occurrences of two newlines, found from left to right; \<open>cur\<close> is the piece being read.
\<close>

fun split_paragraphs :: "string \<Rightarrow> string \<Rightarrow> string list" where
  "split_paragraphs [] cur = [cur]"
| "split_paragraphs [a] cur = [cur @ [a]]"
| "split_paragraphs (a # b # rest) cur =
     (if a = CHR 0x0A \<and> b = CHR 0x0A then cur # split_paragraphs rest []
      else split_paragraphs (b # rest) (cur @ [a]))"

definition check_formatting_issues :: "string \<Rightarrow> issue list" where
  "check_formatting_issues text =
     (let paragraphs = split_paragraphs text []
      in (if length paragraphs < 3
          then [\<lparr>issue_type = ''formatting_issue'', severity = ''Low'',
                 description = ''Document appears to have insufficient structure'',
                 location = None,
                 suggestion = ''Organize document into clear sections with proper headings'',
                 adgm_reference = ''ADGM Document Standards''\<rparr>]
          else []) @
         (if re_search False ([(Digit, Plus)] @ lit ''.'') text = None
          then [\<lparr>issue_type = ''formatting_issue'', severity = ''Low'',
                 description = ''Document lacks proper clause numbering'',
                 location = None,
                 suggestion = ''Add numbered clauses for better organization'',
                 adgm_reference = ''ADGM Document Standards''\<rparr>]
          else []))"

text \<open>
  The result of \<^verbatim>\<open>analyze_document\<close>. The dictionaries \<^verbatim>\<open>issues_by_type\<close> and
  \<^verbatim>\<open>summary\<close> are kept in insertion order.
\<close>

record analysis =
  document_type :: string
  total_issues :: nat
  overall_severity :: string
  issues :: "issue list"
  issues_by_type :: "(string \<times> issue list) list"
  summary :: "(string \<times> nat) list"

text \<open>\<^verbatim>\<open>severity_scores.get(issue["severity"], 1)\<close>.\<close>

definition severity_scores :: "(string \<times> nat) list" where
  "severity_scores = [(''Low'', 1), (''Medium'', 2), (''High'', 3)]"

definition severity_score :: "string \<Rightarrow> nat" where
  "severity_score s = (case map_of severity_scores s of None \<Rightarrow> 1 | Some v \<Rightarrow> v)"

text \<open>
  \<^verbatim>\<open>max([...]) if all_issues else 0\<close>: the maximum of a list raises on the empty list,
  which the guard excludes.
\<close>

definition max_severity_of :: "issue list \<Rightarrow> py_error + nat" where
  "max_severity_of all_issues =
     (if all_issues \<noteq> [] then py_max_by id (map (\<lambda>issue. severity_score (severity issue)) all_issues)
      else Inr 0)"

definition severity_label :: "nat \<Rightarrow> string" where
  "severity_label max_severity =
     (if 3 \<le> max_severity then ''High''
      else if 2 \<le> max_severity then ''Medium''
      else ''Low'')"

text \<open>
  The grouping loop: a type seen for the first time gets an empty list at the end of
  the dictionary, then the issue is appended to the list of its type.
\<close>

definition group_issue :: "issue \<Rightarrow> (string \<times> issue list) list \<Rightarrow> (string \<times> issue list) list" where
  "group_issue issue by_type =
     (let t = issue_type issue;
          by_type' = (if map_of by_type t = None then AList.update t [] by_type else by_type)
      in AList.map_entry t (\<lambda>l. l @ [issue]) by_type')"

fun group_issues :: "issue list \<Rightarrow> (string \<times> issue list) list \<Rightarrow> (string \<times> issue list) list" where
  "group_issues [] by_type = by_type"
| "group_issues (issue # rest) by_type = group_issues rest (group_issue issue by_type)"

definition count_type :: "string \<Rightarrow> issue list \<Rightarrow> nat" where
  "count_type t all_issues = length (filter (\<lambda>i. issue_type i = t) all_issues)"

text \<open>The seven values of the key \<^verbatim>\<open>type\<close> that the checks write.\<close>

definition issue_type_names :: "string list" where
  "issue_type_names =
     [''jurisdiction_issue'', ''missing_clause'', ''ambiguous_language'',
      ''missing_signatures'', ''incomplete_info'', ''non_compliant_structure'',
      ''formatting_issue'']"

definition run_all_checks :: "string \<Rightarrow> string \<Rightarrow> issue list" where
  "run_all_checks text doc_type =
     check_jurisdiction_issues text @
     check_missing_clauses text doc_type @
     check_ambiguous_language text @
     check_missing_signatures text @
     check_incomplete_info text @
     check_non_compliant_structures text @
     check_formatting_issues text"

definition analyze_document :: "string \<Rightarrow> string \<Rightarrow> py_error + analysis" where
  "analyze_document text doc_type =
     (let all_issues = run_all_checks text doc_type
      in case max_severity_of all_issues of
           Inl e \<Rightarrow> Inl e
         | Inr max_severity \<Rightarrow>
             Inr \<lparr>document_type = doc_type,
                  total_issues = length all_issues,
                  overall_severity = severity_label max_severity,
                  issues = all_issues,
                  issues_by_type = group_issues all_issues [],
                  summary =
                    [(''jurisdiction_issues'', count_type ''jurisdiction_issue'' all_issues),
                     (''missing_clauses'', count_type ''missing_clause'' all_issues),
                     (''ambiguous_language'', count_type ''ambiguous_language'' all_issues),
                     (''missing_signatures'', count_type ''missing_signatures'' all_issues),
                     (''incomplete_info'', count_type ''incomplete_info'' all_issues),
                     (''non_compliant_structures'',
                        count_type ''non_compliant_structure'' all_issues),
                     (''formatting_issues'', count_type ''formatting_issue'' all_issues)]\<rparr>)"

section \<open>\<^verbatim>\<open>app.py\<close>: detection step and report builder\<close>

text \<open>
  One entry of \<^verbatim>\<open>results["documents_analyzed"]\<close>, with the keys the detection step and
  the report builder read.
\<close>

record document_result =
  file_name :: string
  doc_type :: string
  confidence :: rat
  red_flag_analysis :: analysis

text \<open>
  The dictionary \<^verbatim>\<open>results\<close> of \<^verbatim>\<open>process_documents\<close>. The keys
  \<^verbatim>\<open>documents_uploaded\<close> and \<^verbatim>\<open>required_documents\<close> exist only after a detection.
\<close>

record results =
  documents_analyzed :: "document_result list"
  process_detected :: string
  missing_documents :: "string list"
  documents_uploaded :: "nat option"
  required_documents :: "nat option"

text \<open>
  The part of \<^verbatim>\<open>process_documents\<close> that follows the loop over the uploaded files:
  \<open>docs\<close> is the list \<^verbatim>\<open>results["documents_analyzed"]\<close> that the loop has filled.
\<close>

definition process_documents :: "document_result list \<Rightarrow> py_error + results" where
  "process_documents docs =
     (let results0 = \<lparr>documents_analyzed = docs, process_detected = '''',
                       missing_documents = [], documents_uploaded = None,
                       required_documents = None\<rparr>
      in if docs \<noteq> []
         then (let doc_types = map doc_type docs
               in case detect_process_from_documents doc_types of
                    Inl e \<Rightarrow> Inl e
                  | Inr detected_process \<Rightarrow>
                      (let required_docs = get_required_documents_for_process detected_process;
                           missing_docs = missing_docs_of required_docs doc_types
                       in Inr (results0\<lparr>process_detected := detected_process,
                                        missing_documents := missing_docs,
                                        documents_uploaded := Some (length docs),
                                        required_documents := Some (length required_docs)\<rparr>)))
         else Inr results0)"

text \<open>One element of \<^verbatim>\<open>report["issues_found"]\<close> and the report itself.\<close>

record report_issue =
  entry_document :: string
  entry_section :: string
  entry_issue :: string
  entry_severity :: string
  entry_suggestion :: string

record report =
  report_process :: string
  report_documents_uploaded :: nat
  report_required_documents :: nat
  missing_document :: string
  issues_found :: "report_issue list"

definition report_entry :: "string \<Rightarrow> issue \<Rightarrow> report_issue" where
  "report_entry dtype issue =
     \<lparr>entry_document = dtype,
      entry_section = (case location issue of None \<Rightarrow> ''General'' | Some l \<Rightarrow> l),
      entry_issue = description issue,
      entry_severity = severity issue,
      entry_suggestion = suggestion issue\<rparr>"

definition generate_structured_report :: "results \<Rightarrow> report" where
  "generate_structured_report res =
     (let rep = \<lparr>report_process = process_detected res,
                  report_documents_uploaded = length (documents_analyzed res),
                  report_required_documents = 0,
                  missing_document = '''',
                  issues_found = []\<rparr>;
          rep1 =
            (if process_detected res \<noteq> ''''
             then (let required_docs = get_required_documents_for_process (process_detected res);
                       rep' = rep\<lparr>report_required_documents := length required_docs\<rparr>;
                       missing_docs = missing_documents res
                   in case missing_docs of
                        [] \<Rightarrow> rep'
                      | first # _ \<Rightarrow> rep'\<lparr>missing_document := first\<rparr>)
             else rep)
      in rep1\<lparr>issues_found :=
                concat (map (\<lambda>doc_result.
                               map (report_entry (doc_type doc_result))
                                 (issues (red_flag_analysis doc_result)))
                          (documents_analyzed res))\<rparr>)"

text \<open>
  A detection result as the specification defines it: the missing list is the required
  list of the detected process without the uploaded types, in the order of the required
  list. The process may be any string, also the empty one of a batch without documents.
\<close>

definition is_detection_result :: "results \<Rightarrow> string list \<Rightarrow> bool" where
  "is_detection_result res uploaded \<longleftrightarrow>
     missing_documents res =
       missing_docs_of (get_required_documents_for_process (process_detected res)) uploaded"

text \<open>
  Sample input of the report builder: two analysed documents with two and three issues,
  two of the issues with a location, and the detection result for their types.
\<close>

definition example_issue :: "string \<Rightarrow> string option \<Rightarrow> issue" where
  "example_issue d l =
     \<lparr>issue_type = ''incomplete_info'', severity = ''Medium'', description = d,
      location = l, suggestion = ''Complete all required information before submission'',
      adgm_reference = ''ADGM Companies Regulations 2020''\<rparr>"

definition example_document :: "string \<Rightarrow> issue list \<Rightarrow> document_result" where
  "example_document dt all_issues =
     \<lparr>file_name = dt @ ''.docx'', doc_type = dt, confidence = 1 / 2,
      red_flag_analysis =
        \<lparr>document_type = dt, total_issues = length all_issues,
         overall_severity = ''Medium'', issues = all_issues,
         issues_by_type = group_issues all_issues [],
         summary = [(''incomplete_info'', length all_issues)]\<rparr>\<rparr>"

definition example_documents :: "document_result list" where
  "example_documents =
     [example_document ''Articles of Association''
        [example_issue ''a'' None, example_issue ''b'' (Some ''Position 0-3'')],
      example_document ''Memorandum of Association''
        [example_issue ''c'' None, example_issue ''d'' None,
         example_issue ''e'' (Some ''Position 5-8'')]]"

definition example_results :: results where
  "example_results =
     \<lparr>documents_analyzed = example_documents,
      process_detected = ''Company Incorporation'',
      missing_documents = [''Incorporation Application'', ''UBO Declaration'',
                           ''Register of Members and Directors''],
      documents_uploaded = Some 2, required_documents = Some 5\<rparr>"

section \<open>What a pattern matches\<close>

text \<open>
  The specification speaks of a pattern matching somewhere in a text. \<open>accepts ic p w\<close>
  says that the whole string \<open>w\<close> is a match of \<open>p\<close>: each item takes one character
  of its class, an optional item one or none, a starred item any number, a plus item at
  least one. A pattern matches in a string when some contiguous part of the string is a
  match, letter case ignored as under \<^verbatim>\<open>re.IGNORECASE\<close>.
\<close>

fun accepts :: "bool \<Rightarrow> regex \<Rightarrow> string \<Rightarrow> bool" where
  "accepts ic [] w = (w = [])"
| "accepts ic ((c, One) # p) [] = False"
| "accepts ic ((c, One) # p) (x # w) = (cls_ok ic c x \<and> accepts ic p w)"
| "accepts ic ((c, Opt) # p) [] = accepts ic p []"
| "accepts ic ((c, Opt) # p) (x # w) =
     (accepts ic p (x # w) \<or> (cls_ok ic c x \<and> accepts ic p w))"
| "accepts ic ((c, Star) # p) [] = accepts ic p []"
| "accepts ic ((c, Star) # p) (x # w) =
     (accepts ic p (x # w) \<or> (cls_ok ic c x \<and> accepts ic ((c, Star) # p) w))"
| "accepts ic ((c, Plus) # p) [] = False"
| "accepts ic ((c, Plus) # p) (x # w) = (cls_ok ic c x \<and> accepts ic ((c, Star) # p) w)"

definition matches_in :: "regex \<Rightarrow> string \<Rightarrow> bool" where
  "matches_in p text \<longleftrightarrow> (\<exists>pre m post. text = pre @ m @ post \<and> accepts True p m)"



text \<open>\<open>needs_char p\<close>: the first item of \<open>p\<close> must take a character.\<close>

fun needs_char :: "regex \<Rightarrow> bool" where
  "needs_char ((c, One) # p) = True"
| "needs_char ((c, Plus) # p) = True"
| "needs_char p = False"

section \<open>Properties\<close>

subsection \<open>Strings\<close>

lemma str_in_iff: "str_in k t \<longleftrightarrow> (\<exists>pre post. t = pre @ k @ post)"
proof (induction t)
  case Nil
  then show ?case by auto
next
  case (Cons c cs)
  have "(\<exists>pre post. c # cs = pre @ k @ post) \<longleftrightarrow>
        prefix k (c # cs) \<or> (\<exists>pre post. cs = pre @ k @ post)"
  proof
    assume "\<exists>pre post. c # cs = pre @ k @ post"
    then obtain pre post where e: "c # cs = pre @ k @ post" by blast
    show "prefix k (c # cs) \<or> (\<exists>pre post. cs = pre @ k @ post)"
    proof (cases pre)
      case Nil
      with e show ?thesis by (simp add: prefix_def)
    next
      case (Cons p ps)
      with e have "cs = ps @ k @ post" by simp
      then show ?thesis by blast
    qed
  next
    assume "prefix k (c # cs) \<or> (\<exists>pre post. cs = pre @ k @ post)"
    then show "\<exists>pre post. c # cs = pre @ k @ post"
    proof
      assume "prefix k (c # cs)"
      then obtain post where "c # cs = k @ post" by (auto simp: prefix_def)
      then have "c # cs = [] @ k @ post" by simp
      then show ?thesis by blast
    next
      assume "\<exists>pre post. cs = pre @ k @ post"
      then obtain pre post where "cs = pre @ k @ post" by blast
      then have "c # cs = (c # pre) @ k @ post" by simp
      then show ?thesis by blast
    qed
  qed
  with Cons.IH show ?case by simp
qed

subsection \<open>The classifier\<close>


lemma keyword_score_filter:
  "keyword_score ks tx = length (filter (\<lambda>k. str_in k tx) ks)"
  by (induction ks) auto

lemma fold_max_step_first:
  "\<exists>pre post. x # rest = pre @ fold (max_step key) rest x # post \<and>
     (\<forall>y \<in> set pre. key y < key (fold (max_step key) rest x)) \<and>
     (\<forall>y \<in> set post. key y \<le> key (fold (max_step key) rest x))"
proof (induction rest rule: rev_induct)
  case Nil
  have "[x] = [] @ x # []" by simp
  then show ?case by force
next
  case (snoc y ys)
  let ?r = "fold (max_step key) ys x"
  from snoc obtain pre post where d: "x # ys = pre @ ?r # post"
    and lt: "\<forall>z \<in> set pre. key z < key ?r" and le: "\<forall>z \<in> set post. key z \<le> key ?r"
    by blast
  show ?case
  proof (cases "key ?r < key y")
    case True
    then have r: "fold (max_step key) (ys @ [y]) x = y" by (simp add: max_step_def)
    have "x # ys @ [y] = (x # ys) @ y # []" by simp
    moreover have "\<forall>z \<in> set (x # ys). key z < key y"
    proof
      fix z assume "z \<in> set (x # ys)"
      with d have "z \<in> set pre \<or> z = ?r \<or> z \<in> set post" by auto
      with lt le True show "key z < key y" by force
    qed
    ultimately show ?thesis unfolding r by (metis empty_iff list.set(1))
  next
    case False
    then have r: "fold (max_step key) (ys @ [y]) x = ?r" by (simp add: max_step_def)
    from d have "x # ys @ [y] = pre @ ?r # (post @ [y])" by simp
    moreover from le False have "\<forall>z \<in> set (post @ [y]). key z \<le> key ?r" by auto
    ultimately show ?thesis unfolding r using lt by blast
  qed
qed

lemma py_max_by_first:
  assumes "xs \<noteq> []"
  shows "\<exists>r pre post. py_max_by key xs = Inr r \<and> xs = pre @ r # post \<and>
     (\<forall>y \<in> set pre. key y < key r) \<and> (\<forall>y \<in> set post. key y \<le> key r)"
proof -
  from assms obtain x rest where xs: "xs = x # rest" by (cases xs) auto
  from fold_max_step_first[of x rest key] show ?thesis
    unfolding xs py_max_by_def by auto
qed

lemma type_score_value:
  "type_score ks tx = Inr (of_nat (keyword_score ks tx) / of_nat (length ks))"
  by (cases ks) (simp_all add: type_score_def py_truediv_def)

lemma update_fresh: "k \<notin> fst ` set al \<Longrightarrow> AList.update k v al = al @ [(k, v)]"
  by (induction al) auto

lemma fill_scores_distinct:
  "distinct (map fst table) \<Longrightarrow> fst ` set table \<inter> fst ` set scores = {} \<Longrightarrow>
   fill_scores table tx scores =
     Inr (scores @ map (\<lambda>(t, ks). (t, of_nat (keyword_score ks tx) / of_nat (length ks))) table)"
proof (induction table arbitrary: scores)
  case Nil
  then show ?case by simp
next
  case (Cons e table)
  obtain t ks where e: "e = (t, ks)" by (cases e)
  from Cons.prems e have fresh: "t \<notin> fst ` set scores" by auto
  let ?v = "of_nat (keyword_score ks tx) / of_nat (length ks) :: rat"
  have "fst ` set table \<inter> fst ` set (scores @ [(t, ?v)]) = {}"
    using Cons.prems e by auto
  moreover have "distinct (map fst table)" using Cons.prems by simp
  ultimately have "fill_scores table tx (scores @ [(t, ?v)]) =
     Inr ((scores @ [(t, ?v)]) @
       map (\<lambda>(t, ks). (t, of_nat (keyword_score ks tx) / of_nat (length ks))) table)"
    by (rule Cons.IH[rotated])
  then show ?case
    by (simp add: e type_score_value update_fresh[OF fresh])
qed

lemma document_types_distinct: "distinct (map fst document_types)"
  by (simp add: document_types_def)

lemma document_types_lower:
  "list_all (\<lambda>(t, ks). list_all (\<lambda>k. lower k = k) ks) document_types"
  by code_simp

lemma ci_substring_lower_key: "lower k = k \<Longrightarrow> str_in k (lower text) = ci_substring k text"
  by (simp add: str_in_iff ci_substring_def)

lemma document_types_keyword_lower:
  assumes "(t, ks) \<in> set document_types" and "k \<in> set ks"
  shows "lower k = k"
  using document_types_lower assms by (auto simp: list_all_iff)

lemma code_ratio_spec:
  assumes "(t, ks) \<in> set document_types"
  shows "of_nat (keyword_score ks (lower text)) / of_nat (length ks) = spec_confidence ks text"
proof -
  have "filter (\<lambda>k. str_in k (lower text)) ks = filter (\<lambda>k. ci_substring k text) ks"
    by (rule filter_cong[OF refl])
       (simp add: ci_substring_lower_key document_types_keyword_lower[OF assms])
  then show ?thesis by (simp add: keyword_score_filter spec_confidence_def)
qed

lemma spec_confidence_range: "0 \<le> spec_confidence ks text \<and> spec_confidence ks text \<le> 1"
proof -
  have "length (filter (\<lambda>k. ci_substring k text) ks) \<le> length ks" by simp
  then have "(of_nat (length (filter (\<lambda>k. ci_substring k text) ks)) :: rat) \<le> of_nat (length ks)"
    by (simp only: of_nat_le_iff)
  then show ?thesis
    unfolding spec_confidence_def by (simp add: divide_le_eq_1)
qed

lemma identify_document_type_max:
  "identify_document_type text = py_max_by snd (code_scores text)"
  unfolding identify_document_type_def Let_def code_scores_def
  using fill_scores_distinct[OF document_types_distinct, of "[]" "lower text"]
  by simp

text \<open>
  Claim C1. For every text, \<^const>\<open>identify_document_type\<close> returns normally a pair
  \<open>(t, c)\<close> where \<open>t\<close> is a registered document type with keyword list \<open>ks\<close>,
  the confidence \<open>c\<close> is the number of keywords of \<open>ks\<close> occurring in the text as
  case-insensitive substrings divided by the number of keywords, \<open>c\<close> lies between 0 and
  1, every table entry before \<open>t\<close> has a strictly smaller ratio and every entry after it
  a ratio that is not greater (the first maximal entry in table order wins), and when all
  ratios are 0 the first table entry is returned with confidence 0.
\<close>

theorem identify_document_type_spec:
  "\<exists>t c ks pre post.
     identify_document_type text = Inr (t, c) \<and>
     document_types = pre @ (t, ks) # post \<and>
     c = spec_confidence ks text \<and> 0 \<le> c \<and> c \<le> 1 \<and>
     (\<forall>e \<in> set pre. spec_confidence (snd e) text < c) \<and>
     (\<forall>e \<in> set post. spec_confidence (snd e) text \<le> c) \<and>
     ((\<forall>e \<in> set document_types. spec_confidence (snd e) text = 0) \<longrightarrow>
        t = ''Articles of Association'' \<and> c = 0)"
proof -
  let ?f = "\<lambda>(t, ks). (t, of_nat (keyword_score ks (lower text)) / of_nat (length ks) :: rat)"
  have ne: "code_scores text \<noteq> []" by (simp add: code_scores_def document_types_def)
  from py_max_by_first[OF ne, of snd] obtain r pre' post' where
    m: "py_max_by snd (code_scores text) = Inr r" and
    d: "code_scores text = pre' @ r # post'" and
    lt: "\<forall>y \<in> set pre'. snd y < snd r" and le: "\<forall>y \<in> set post'. snd y \<le> snd r"
    by blast
  from d obtain pre e post where
    dt: "document_types = pre @ e # post" and p1: "map ?f pre = pre'" and
    p2: "?f e = r" and p3: "map ?f post = post'"
    unfolding code_scores_def by (auto simp: map_eq_append_conv map_eq_Cons_conv)
  obtain t ks where e: "e = (t, ks)" by (cases e)
  have val: "\<And>x. x \<in> set document_types \<Longrightarrow> snd (?f x) = spec_confidence (snd x) text"
  proof -
    fix x assume xin: "x \<in> set document_types"
    obtain a b where x: "x = (a, b)" by (cases x)
    show "snd (?f x) = spec_confidence (snd x) text"
      using code_ratio_spec[of a b "text"] xin x by simp
  qed
  have mem: "set document_types = set pre \<union> {e} \<union> set post"
    by (subst dt) auto
  have ein: "e \<in> set document_types" using mem by simp
  have re: "snd r = spec_confidence ks text"
    using val[OF ein] p2 e by auto
  have r: "r = (t, spec_confidence ks text)"
    using re p2 e by auto
  have a: "\<forall>x \<in> set pre. spec_confidence (snd x) text < spec_confidence ks text"
  proof
    fix x assume x: "x \<in> set pre"
    then have "?f x \<in> set pre'" using p1 by force
    with lt have "snd (?f x) < snd r" by blast
    moreover have "x \<in> set document_types" using x mem by simp
    ultimately show "spec_confidence (snd x) text < spec_confidence ks text"
      using val[of x] re by simp
  qed
  have b: "\<forall>x \<in> set post. spec_confidence (snd x) text \<le> spec_confidence ks text"
  proof
    fix x assume x: "x \<in> set post"
    then have "?f x \<in> set post'" using p3 by force
    with le have "snd (?f x) \<le> snd r" by blast
    moreover have "x \<in> set document_types" using x mem by simp
    ultimately show "spec_confidence (snd x) text \<le> spec_confidence ks text"
      using val[of x] re by simp
  qed
  have z: "(\<forall>x \<in> set document_types. spec_confidence (snd x) text = 0) \<longrightarrow>
        t = ''Articles of Association'' \<and> spec_confidence ks text = 0"
  proof
    assume all0: "\<forall>x \<in> set document_types. spec_confidence (snd x) text = 0"
    have c0: "spec_confidence ks text = 0" using all0 ein e by auto
    have "pre = []"
    proof (cases pre)
      case Nil then show ?thesis .
    next
      case (Cons x xs)
      then have "x \<in> set pre" by simp
      with a have "spec_confidence (snd x) text < spec_confidence ks text" by blast
      moreover have "spec_confidence (snd x) text = 0" using all0 mem Cons by simp
      ultimately show ?thesis using c0 by simp
    qed
    with e have "hd document_types = (t, ks)" by (subst dt) simp
    then have "t = ''Articles of Association''" by (simp add: document_types_def)
    with c0 show "t = ''Articles of Association'' \<and> spec_confidence ks text = 0" by simp
  qed
  have "identify_document_type text = Inr (t, spec_confidence ks text)"
    using m r by (simp add: identify_document_type_max)
  moreover have "document_types = pre @ (t, ks) # post" using dt e by simp
  ultimately show ?thesis
    using a b z spec_confidence_range[of ks "text"] by blast
qed

theorem identify_document_type_spec_witness:
  "identify_document_type ''The Memorandum'' = Inr (''Memorandum of Association'', 1 / 7) \<and>
   spec_confidence
     [''memorandum of association'', ''memorandum'', ''moa'', ''mou'',
      ''company name'', ''registered office'', ''objects''] ''The Memorandum'' = 1 / 7 \<and>
   identify_document_type '''' = Inr (''Articles of Association'', 0)"
proof -
  have v: "identify_document_type ''The Memorandum'' = Inr (''Memorandum of Association'', 1 / 7)"
    by code_simp
  have v0: "identify_document_type '''' = Inr (''Articles of Association'', 0)"
    by code_simp
  from identify_document_type_spec[of "''The Memorandum''"] obtain t c ks pre post where
    r: "identify_document_type ''The Memorandum'' = Inr (t, c)" and
    d: "document_types = pre @ (t, ks) # post" and
    c: "c = spec_confidence ks ''The Memorandum''"
    by blast
  from v r have t: "t = ''Memorandum of Association''" and c7: "c = 1 / 7" by simp_all
  have "(t, ks) \<in> set document_types" by (subst d) simp
  then have "map_of document_types t = Some ks"
    using document_types_distinct by simp
  moreover have "map_of document_types ''Memorandum of Association'' =
      Some [''memorandum of association'', ''memorandum'', ''moa'', ''mou'',
            ''company name'', ''registered office'', ''objects'']"
    by (simp add: document_types_def)
  ultimately have "ks = [''memorandum of association'', ''memorandum'', ''moa'', ''mou'',
            ''company name'', ''registered office'', ''objects'']"
    using t by simp
  with c c7 v v0 show ?thesis by simp
qed

subsection \<open>The process detector\<close>

lemma vote_document_value:
  "vote_document t
     [(''Company Incorporation'', a), (''Company Licensing'', b),
      (''Employment Setup'', c), (''Commercial Agreement'', d)] =
   Inr [(''Company Incorporation'',
           a + votes [''Articles of Association'', ''Memorandum of Association'',
                      ''Incorporation Application''] [t]),
        (''Company Licensing'', b + votes [''Licensing Application'', ''Compliance Policy''] [t]),
        (''Employment Setup'', c + votes [''Employment Contract''] [t]),
        (''Commercial Agreement'', d + votes [''Commercial Agreement''] [t])]"
  by (simp add: vote_document_def Let_def vote_if_def dict_incr_def votes_def)

lemma votes_Cons: "votes vs (t # ts) = votes vs [t] + votes vs ts"
  by (simp add: votes_def)

lemma vote_documents_value:
  "vote_documents ts
     [(''Company Incorporation'', a), (''Company Licensing'', b),
      (''Employment Setup'', c), (''Commercial Agreement'', d)] =
   Inr [(''Company Incorporation'',
           a + votes [''Articles of Association'', ''Memorandum of Association'',
                      ''Incorporation Application''] ts),
        (''Company Licensing'', b + votes [''Licensing Application'', ''Compliance Policy''] ts),
        (''Employment Setup'', c + votes [''Employment Contract''] ts),
        (''Commercial Agreement'', d + votes [''Commercial Agreement''] ts)]"
proof (induction ts arbitrary: a b c d)
  case Nil
  then show ?case by (simp add: votes_def)
next
  case (Cons t ts)
  show ?case
    by (simp only: vote_documents.simps vote_document_value sum.case Cons.IH
          votes_Cons[of _ t ts] add.assoc)
qed

lemma detect_process_scores:
  "detect_process_from_documents ts =
     map_sum id fst (py_max_by snd (map (\<lambda>(p, vs). (p, votes vs ts)) voting_types))"
  unfolding detect_process_from_documents_def initial_process_scores_def
    vote_documents_value voting_types_def
  by (simp add: py_max_by_def)

lemma voting_types_distinct: "distinct (map fst voting_types)"
  by (simp add: voting_types_def)

lemma detect_process_first_max:
  "\<exists>p vs pre post.
     detect_process_from_documents ts = Inr p \<and>
     voting_types = pre @ (p, vs) # post \<and>
     (\<forall>e \<in> set pre. votes (snd e) ts < votes vs ts) \<and>
     (\<forall>e \<in> set post. votes (snd e) ts \<le> votes vs ts)"
proof -
  let ?f = "\<lambda>(p, vs). (p, votes vs ts)"
  have ne: "map ?f voting_types \<noteq> []" by (simp add: voting_types_def)
  from py_max_by_first[OF ne, of snd] obtain r pre' post' where
    m: "py_max_by snd (map ?f voting_types) = Inr r" and
    d: "map ?f voting_types = pre' @ r # post'" and
    lt: "\<forall>y \<in> set pre'. snd y < snd r" and le: "\<forall>y \<in> set post'. snd y \<le> snd r"
    by blast
  from d obtain pre e post where
    dt: "voting_types = pre @ e # post" and p1: "map ?f pre = pre'" and
    p2: "?f e = r" and p3: "map ?f post = post'"
    by (auto simp: map_eq_append_conv map_eq_Cons_conv)
  obtain p vs where e: "e = (p, vs)" by (cases e)
  from p2 e have r: "r = (p, votes vs ts)" by simp
  have a: "\<forall>x \<in> set pre. votes (snd x) ts < votes vs ts"
  proof
    fix x assume "x \<in> set pre"
    then have "?f x \<in> set pre'" using p1 by force
    with lt r show "votes (snd x) ts < votes vs ts" by (cases x) auto
  qed
  have b: "\<forall>x \<in> set post. votes (snd x) ts \<le> votes vs ts"
  proof
    fix x assume "x \<in> set post"
    then have "?f x \<in> set post'" using p3 by force
    with le r show "votes (snd x) ts \<le> votes vs ts" by (cases x) auto
  qed
  have "detect_process_from_documents ts = Inr p"
    using m r by (simp add: detect_process_scores)
  moreover have "voting_types = pre @ (p, vs) # post" using dt e by simp
  ultimately show ?thesis using a b by blast
qed

lemma votes_zero: "set ts \<inter> set vs = {} \<Longrightarrow> votes vs ts = 0"
  by (auto simp: votes_def filter_empty_conv)

text \<open>
  Claim C4. For the uploaded types Articles of Association and Memorandum of
  Association the detected process is Company Incorporation and the missing documents
  are Incorporation Application, UBO Declaration and Register of Members and
  Directors, in the order of the required list; \<^const>\<open>process_documents\<close> reports both for
  any two analysed documents of these types. For every list of types the detected
  process is the first entry of the process table with the greatest number of votes:
  the entries before it have strictly fewer votes, the entries after it no more.
\<close>

theorem detect_incorporation_example:
  "detect_process_from_documents [''Articles of Association'', ''Memorandum of Association'']
     = Inr ''Company Incorporation'' \<and>
   missing_docs_of (get_required_documents_for_process ''Company Incorporation'')
       [''Articles of Association'', ''Memorandum of Association'']
     = [''Incorporation Application'', ''UBO Declaration'',
        ''Register of Members and Directors''] \<and>
   map_sum id (\<lambda>res. (process_detected res, missing_documents res))
     (process_documents [d1\<lparr>doc_type := ''Articles of Association''\<rparr>,
                         d2\<lparr>doc_type := ''Memorandum of Association''\<rparr>])
     = Inr (''Company Incorporation'',
            [''Incorporation Application'', ''UBO Declaration'',
             ''Register of Members and Directors'']) \<and>
   (\<exists>p vs pre post.
      detect_process_from_documents ts = Inr p \<and>
      voting_types = pre @ (p, vs) # post \<and>
      (\<forall>e \<in> set pre. votes (snd e) ts < votes vs ts) \<and>
      (\<forall>e \<in> set post. votes (snd e) ts \<le> votes vs ts))"
proof -
  have det: "detect_process_from_documents
      [''Articles of Association'', ''Memorandum of Association'']
     = Inr ''Company Incorporation''"
    by (simp add: detect_process_scores voting_types_def votes_def py_max_by_def max_step_def)
  have mis: "missing_docs_of (get_required_documents_for_process ''Company Incorporation'')
       [''Articles of Association'', ''Memorandum of Association'']
     = [''Incorporation Application'', ''UBO Declaration'',
        ''Register of Members and Directors'']"
    by (simp add: missing_docs_of_def get_required_documents_for_process_def
          process_requirements_def)
  have pd: "map_sum id (\<lambda>res. (process_detected res, missing_documents res))
     (process_documents [d1\<lparr>doc_type := ''Articles of Association''\<rparr>,
                         d2\<lparr>doc_type := ''Memorandum of Association''\<rparr>])
     = Inr (''Company Incorporation'',
            [''Incorporation Application'', ''UBO Declaration'',
             ''Register of Members and Directors''])"
    by (simp add: process_documents_def Let_def det mis)
  from det mis pd detect_process_first_max[of ts] show ?thesis by blast
qed

text \<open>
  Claim C10. When no uploaded type is a voting type of any process (in particular for
  the empty list), \<^const>\<open>detect_process_from_documents\<close> returns normally and its result
  is Company Incorporation, the first process of the table.
\<close>

theorem detect_no_voting_type:
  assumes "\<forall>t \<in> set ts. t \<notin> set (concat (map snd voting_types))"
  shows "detect_process_from_documents ts = Inr ''Company Incorporation''"
proof -
  have z: "\<And>vs. vs \<in> snd ` set voting_types \<Longrightarrow> votes vs ts = 0"
  proof -
    fix vs assume "vs \<in> snd ` set voting_types"
    with assms have "set ts \<inter> set vs = {}" by auto
    then show "votes vs ts = 0" by (rule votes_zero)
  qed
  have "map (\<lambda>(p, vs). (p, votes vs ts)) voting_types =
        [(''Company Incorporation'', 0), (''Company Licensing'', 0),
         (''Employment Setup'', 0), (''Commercial Agreement'', 0)]"
    using z by (simp add: voting_types_def)
  then show ?thesis
    by (simp add: detect_process_scores py_max_by_def max_step_def)
qed

theorem detect_no_voting_type_witness:
  "detect_process_from_documents [] = Inr ''Company Incorporation'' \<and>
   detect_process_from_documents [''Board Resolution'', ''UBO Declaration'', ''Lease'']
     = Inr ''Company Incorporation''"
proof -
  have "\<forall>t \<in> set ([] :: string list). t \<notin> set (concat (map snd voting_types))" by simp
  moreover have "\<forall>t \<in> set [''Board Resolution'', ''UBO Declaration'', ''Lease''].
      t \<notin> set (concat (map snd voting_types))"
    by (simp add: voting_types_def)
  ultimately show ?thesis
    using detect_no_voting_type[of "[]"]
      detect_no_voting_type[of "[''Board Resolution'', ''UBO Declaration'', ''Lease'']"]
    by blast
qed

theorem detect_incorporation_example_witness:
  "detect_process_from_documents [''Employment Contract''] = Inr ''Employment Setup'' \<and>
   votes [''Articles of Association'', ''Memorandum of Association'',
          ''Incorporation Application''] [''Employment Contract'']
     < votes [''Employment Contract''] [''Employment Contract''] \<and>
   votes [''Commercial Agreement''] [''Employment Contract'']
     \<le> votes [''Employment Contract''] [''Employment Contract'']"
proof -
  let ?ts = "[''Employment Contract'']"
  have v: "detect_process_from_documents ?ts = Inr ''Employment Setup''"
    by (simp add: detect_process_scores voting_types_def votes_def py_max_by_def max_step_def)
  from detect_incorporation_example[of d1 d2 ?ts] obtain p vs pre post where
    r: "detect_process_from_documents ?ts = Inr p" and
    d: "voting_types = pre @ (p, vs) # post" and
    lt: "\<forall>e \<in> set pre. votes (snd e) ?ts < votes vs ?ts" and
    le: "\<forall>e \<in> set post. votes (snd e) ?ts \<le> votes vs ?ts"
    by blast
  from v r have p: "p = ''Employment Setup''" by simp
  from d p have "pre = [(''Company Incorporation'',
         [''Articles of Association'', ''Memorandum of Association'',
          ''Incorporation Application'']),
      (''Company Licensing'', [''Licensing Application'', ''Compliance Policy''])] \<and>
     vs = [''Employment Contract''] \<and> post = [(''Commercial Agreement'', [''Commercial Agreement''])]"
    unfolding voting_types_def by (auto simp: Cons_eq_append_conv)
  with lt le v show ?thesis by simp
qed

subsection \<open>The overall severity\<close>

lemma severity_score_cases:
  "severity_score s = (if s = ''High'' then 3 else if s = ''Medium'' then 2 else 1)"
  by (simp add: severity_score_def severity_scores_def)

lemma py_max_by_id_nat:
  fixes xs :: "nat list"
  assumes "xs \<noteq> []"
  shows "\<exists>m. py_max_by id xs = Inr m \<and> m \<in> set xs \<and> (\<forall>x \<in> set xs. x \<le> m)"
proof -
  from py_max_by_first[OF assms, of id] obtain r pre post where
    m: "py_max_by id xs = Inr r" and d: "xs = pre @ r # post" and
    lt: "\<forall>y \<in> set pre. id y < id r" and le: "\<forall>y \<in> set post. id y \<le> id r"
    by blast
  have "r \<in> set xs" by (subst d) simp
  moreover have "\<forall>x \<in> set xs. x \<le> r"
  proof
    fix x assume "x \<in> set xs"
    then have "x \<in> set pre \<or> x = r \<or> x \<in> set post" by (subst (asm) d) auto
    with lt le show "x \<le> r" by force
  qed
  ultimately show ?thesis using m by blast
qed

lemma max_severity_of_total:
  "\<exists>m. max_severity_of all_issues = Inr m \<and>
     (3 \<le> m \<longleftrightarrow> (\<exists>i \<in> set all_issues. severity i = ''High'')) \<and>
     (2 \<le> m \<longleftrightarrow> (\<exists>i \<in> set all_issues. severity i = ''High'' \<or> severity i = ''Medium''))"
proof (cases "all_issues = []")
  case True
  then show ?thesis by (simp add: max_severity_of_def)
next
  case False
  let ?xs = "map (\<lambda>issue. severity_score (severity issue)) all_issues"
  from False have "?xs \<noteq> []" by simp
  from py_max_by_id_nat[OF this] obtain m where
    m: "py_max_by id ?xs = Inr m" and mem: "m \<in> set ?xs" and ub: "\<forall>x \<in> set ?xs. x \<le> m"
    by blast
  from mem obtain i where i: "i \<in> set all_issues" and mi: "m = severity_score (severity i)"
    by auto
  have 3: "3 \<le> m \<longleftrightarrow> (\<exists>i \<in> set all_issues. severity i = ''High'')"
  proof
    assume "3 \<le> m"
    with mi have "severity i = ''High''" by (simp add: severity_score_cases split: if_splits)
    with i show "\<exists>i \<in> set all_issues. severity i = ''High''" by blast
  next
    assume "\<exists>i \<in> set all_issues. severity i = ''High''"
    then obtain j where j: "j \<in> set all_issues" and "severity j = ''High''" by blast
    then have "severity_score (severity j) = 3" by (simp add: severity_score_cases)
    moreover from j ub have "severity_score (severity j) \<le> m" by simp
    ultimately show "3 \<le> m" by simp
  qed
  have 2: "2 \<le> m \<longleftrightarrow> (\<exists>i \<in> set all_issues. severity i = ''High'' \<or> severity i = ''Medium'')"
  proof
    assume "2 \<le> m"
    with mi have "severity i = ''High'' \<or> severity i = ''Medium''"
      by (simp add: severity_score_cases split: if_splits)
    with i show "\<exists>i \<in> set all_issues. severity i = ''High'' \<or> severity i = ''Medium''" by blast
  next
    assume "\<exists>i \<in> set all_issues. severity i = ''High'' \<or> severity i = ''Medium''"
    then obtain j where j: "j \<in> set all_issues"
      and "severity j = ''High'' \<or> severity j = ''Medium''" by blast
    then have "2 \<le> severity_score (severity j)" by (auto simp: severity_score_cases)
    moreover from j ub have "severity_score (severity j) \<le> m" by simp
    ultimately show "2 \<le> m" by simp
  qed
  from False m 3 2 show ?thesis by (simp add: max_severity_of_def)
qed

lemma severity_label_iff:
  "(severity_label m = ''High'' \<longleftrightarrow> 3 \<le> m) \<and>
   (severity_label m = ''Medium'' \<longleftrightarrow> \<not> 3 \<le> m \<and> 2 \<le> m) \<and>
   (severity_label m = ''Low'' \<longleftrightarrow> \<not> 2 \<le> m)"
  by (simp add: severity_label_def)

lemma analyze_document_value:
  "\<exists>m. max_severity_of (run_all_checks text dt) = Inr m \<and>
     analyze_document text dt =
       Inr \<lparr>document_type = dt,
            total_issues = length (run_all_checks text dt),
            overall_severity = severity_label m,
            issues = run_all_checks text dt,
            issues_by_type = group_issues (run_all_checks text dt) [],
            summary =
              [(''jurisdiction_issues'', count_type ''jurisdiction_issue'' (run_all_checks text dt)),
               (''missing_clauses'', count_type ''missing_clause'' (run_all_checks text dt)),
               (''ambiguous_language'', count_type ''ambiguous_language'' (run_all_checks text dt)),
               (''missing_signatures'', count_type ''missing_signatures'' (run_all_checks text dt)),
               (''incomplete_info'', count_type ''incomplete_info'' (run_all_checks text dt)),
               (''non_compliant_structures'',
                  count_type ''non_compliant_structure'' (run_all_checks text dt)),
               (''formatting_issues'', count_type ''formatting_issue'' (run_all_checks text dt))]\<rparr>"
proof -
  from max_severity_of_total[of "run_all_checks text dt"] obtain m where
    "max_severity_of (run_all_checks text dt) = Inr m" by blast
  then show ?thesis by (simp add: analyze_document_def Let_def)
qed

text \<open>
  Claim C3. \<^const>\<open>analyze_document\<close> returns normally, and the overall severity of its
  result is High exactly when some issue has severity High, Medium exactly when no
  issue is High and some issue is Medium, and Low exactly when no issue is High or
  Medium, which includes the empty issue list.
\<close>

theorem overall_severity_spec:
  "\<exists>a. analyze_document text dt = Inr a \<and>
     (overall_severity a = ''High'' \<longleftrightarrow> (\<exists>i \<in> set (issues a). severity i = ''High'')) \<and>
     (overall_severity a = ''Medium'' \<longleftrightarrow>
        \<not> (\<exists>i \<in> set (issues a). severity i = ''High'') \<and>
        (\<exists>i \<in> set (issues a). severity i = ''Medium'')) \<and>
     (overall_severity a = ''Low'' \<longleftrightarrow>
        \<not> (\<exists>i \<in> set (issues a). severity i = ''High'') \<and>
        \<not> (\<exists>i \<in> set (issues a). severity i = ''Medium'')) \<and>
     (issues a = [] \<longrightarrow> overall_severity a = ''Low'')"
proof -
  let ?is = "run_all_checks text dt"
  from max_severity_of_total[of ?is] obtain m where
    m: "max_severity_of ?is = Inr m" and
    3: "3 \<le> m \<longleftrightarrow> (\<exists>i \<in> set ?is. severity i = ''High'')" and
    2: "2 \<le> m \<longleftrightarrow> (\<exists>i \<in> set ?is. severity i = ''High'' \<or> severity i = ''Medium'')"
    by blast
  from analyze_document_value[of "text" dt] m obtain a where
    a: "analyze_document text dt = Inr a" and
    sev: "overall_severity a = severity_label m" and iss: "issues a = ?is"
    by auto
  have h: "overall_severity a = ''High'' \<longleftrightarrow> (\<exists>i \<in> set (issues a). severity i = ''High'')"
    using 3 severity_label_iff[of m] sev iss by simp
  have md: "overall_severity a = ''Medium'' \<longleftrightarrow>
        \<not> (\<exists>i \<in> set (issues a). severity i = ''High'') \<and>
        (\<exists>i \<in> set (issues a). severity i = ''Medium'')"
    using 3 2 severity_label_iff[of m] sev iss by auto
  have lo: "overall_severity a = ''Low'' \<longleftrightarrow>
        \<not> (\<exists>i \<in> set (issues a). severity i = ''High'') \<and>
        \<not> (\<exists>i \<in> set (issues a). severity i = ''Medium'')"
    using 3 2 severity_label_iff[of m] sev iss by auto
  have em: "issues a = [] \<longrightarrow> overall_severity a = ''Low''"
    using lo by simp
  from a h md lo em show ?thesis by blast
qed


theorem overall_severity_spec_witness:
  "map_sum id (\<lambda>a. (overall_severity a, map severity (issues a)))
     (analyze_document '''' ''Other'') = Inr (''High'', [''High'', ''Low'', ''Low'']) \<and>
   map_sum id (\<lambda>a. (overall_severity a, map severity (issues a)))
     (analyze_document ''1. Signed by A\<newline>\<newline>B\<newline>\<newline>C'' ''Other'') = Inr (''Low'', [])"
proof -
  have v1: "map_sum id (\<lambda>a. map severity (issues a)) (analyze_document '''' ''Other'')
      = Inr [''High'', ''Low'', ''Low'']"
    by code_simp
  have v2: "map_sum id (\<lambda>a. map severity (issues a))
      (analyze_document ''1. Signed by A\<newline>\<newline>B\<newline>\<newline>C'' ''Other'') = Inr []"
    by code_simp
  from overall_severity_spec[of "''''" "''Other''"] v1
  have "map_sum id (\<lambda>a. (overall_severity a, map severity (issues a)))
     (analyze_document '''' ''Other'') = Inr (''High'', [''High'', ''Low'', ''Low''])"
    by auto
  moreover
  from overall_severity_spec[of "''1. Signed by A\<newline>\<newline>B\<newline>\<newline>C''" "''Other''"] v2
  have "map_sum id (\<lambda>a. (overall_severity a, map severity (issues a)))
     (analyze_document ''1. Signed by A\<newline>\<newline>B\<newline>\<newline>C'' ''Other'') = Inr (''Low'', [])"
    by auto
  ultimately show ?thesis by blast
qed

subsection \<open>Grouping and counting\<close>

lemma group_issue_map_of:
  "map_of (group_issue i d) t =
     (if t = issue_type i
      then Some ((case map_of d t of None \<Rightarrow> [] | Some l \<Rightarrow> l) @ [i])
      else map_of d t)"
  by (auto simp: group_issue_def Let_def AList.map_of_map_entry AList.update_conv'
        split: option.splits)

lemma group_issue_distinct:
  "distinct (map fst d) \<Longrightarrow> distinct (map fst (group_issue i d))"
  by (simp add: group_issue_def Let_def AList.distinct_map_entry AList.distinct_update)

lemma group_issues_distinct:
  "distinct (map fst d) \<Longrightarrow> distinct (map fst (group_issues is d))"
  by (induction "is" arbitrary: d) (simp_all add: group_issue_distinct)

lemma group_issues_map_of:
  "map_of (group_issues is d) t =
     (case map_of d t of
        None \<Rightarrow> if \<exists>i \<in> set is. issue_type i = t
                then Some (filter (\<lambda>i. issue_type i = t) is) else None
      | Some l \<Rightarrow> Some (l @ filter (\<lambda>i. issue_type i = t) is))"
proof (induction "is" arbitrary: d)
  case Nil
  then show ?case by (simp split: option.splits)
next
  case (Cons i "is")
  show ?case
    by (simp add: Cons.IH group_issue_map_of split: option.splits)
qed

lemma group_issues_empty:
  "map_of (group_issues is []) t =
     (if \<exists>i \<in> set is. issue_type i = t
      then Some (filter (\<lambda>i. issue_type i = t) is) else None)"
  by (simp add: group_issues_map_of)

lemma map_entry_bucket_sum:
  "k \<in> fst ` set d \<Longrightarrow>
   sum_list (map (\<lambda>e. length (snd e)) (AList.map_entry k (\<lambda>l. l @ [i]) d)) =
     Suc (sum_list (map (\<lambda>e. length (snd e)) d))"
  by (induction d) auto

lemma group_issue_bucket_sum:
  "sum_list (map (\<lambda>e. length (snd e)) (group_issue i d)) =
     Suc (sum_list (map (\<lambda>e. length (snd e)) d))"
proof (cases "map_of d (issue_type i)")
  case None
  then have fresh: "issue_type i \<notin> fst ` set d" by (simp add: map_of_eq_None_iff)
  have "issue_type i \<in> fst ` set (AList.update (issue_type i) [] d)"
    by (simp add: AList.dom_update)
  from map_entry_bucket_sum[OF this, of i] None show ?thesis
    by (simp add: group_issue_def Let_def update_fresh[OF fresh])
next
  case (Some l)
  then have "issue_type i \<in> fst ` set d" by (meson domI domIff map_of_eq_None_iff)
  from map_entry_bucket_sum[OF this, of i] Some show ?thesis
    by (simp add: group_issue_def Let_def)
qed

lemma group_issues_bucket_sum:
  "sum_list (map (\<lambda>e. length (snd e)) (group_issues is d)) =
     sum_list (map (\<lambda>e. length (snd e)) d) + length is"
  by (induction "is" arbitrary: d) (simp_all add: group_issue_bucket_sum)

lemma match_issues_elem:
  "i \<in> set (match_issues key subject mk) \<Longrightarrow> \<exists>m. i = mk m"
  by (auto simp: match_issues_def)

lemma check_jurisdiction_issues_kind:
  "i \<in> set (check_jurisdiction_issues text) \<Longrightarrow>
     issue_type i = ''jurisdiction_issue'' \<and> severity i = ''High''"
  by (auto simp: check_jurisdiction_issues_def Let_def dest!: match_issues_elem)

lemma check_missing_clauses_kind:
  "i \<in> set (check_missing_clauses text dt) \<Longrightarrow>
     issue_type i = ''missing_clause'' \<and> severity i = ''High''"
  by (auto simp: check_missing_clauses_def Let_def missing_clause_issue_def
        split: option.splits)

lemma check_ambiguous_language_kind:
  "i \<in> set (check_ambiguous_language text) \<Longrightarrow>
     issue_type i = ''ambiguous_language'' \<and> severity i = ''Medium''"
  by (auto simp: check_ambiguous_language_def Let_def dest!: match_issues_elem)

lemma check_missing_signatures_kind:
  "i \<in> set (check_missing_signatures text) \<Longrightarrow>
     issue_type i = ''missing_signatures'' \<and> severity i = ''High''"
  by (auto simp: check_missing_signatures_def Let_def split: if_splits)

lemma check_incomplete_info_kind:
  "i \<in> set (check_incomplete_info text) \<Longrightarrow>
     issue_type i = ''incomplete_info'' \<and> severity i = ''Medium''"
  by (auto simp: check_incomplete_info_def dest!: match_issues_elem)

lemma check_non_compliant_structures_kind:
  "i \<in> set (check_non_compliant_structures text) \<Longrightarrow>
     issue_type i = ''non_compliant_structure'' \<and> severity i = ''High''"
  by (auto simp: check_non_compliant_structures_def Let_def dest!: match_issues_elem)

lemma check_formatting_issues_kind:
  "i \<in> set (check_formatting_issues text) \<Longrightarrow>
     issue_type i = ''formatting_issue'' \<and> severity i = ''Low''"
  by (auto simp: check_formatting_issues_def Let_def split: if_splits)

lemma run_all_checks_kind:
  assumes "i \<in> set (run_all_checks text dt)"
  shows "issue_type i \<in> set issue_type_names"
proof -
  from assms have
    "i \<in> set (check_jurisdiction_issues text) \<or> i \<in> set (check_missing_clauses text dt) \<or>
     i \<in> set (check_ambiguous_language text) \<or> i \<in> set (check_missing_signatures text) \<or>
     i \<in> set (check_incomplete_info text) \<or> i \<in> set (check_non_compliant_structures text) \<or>
     i \<in> set (check_formatting_issues text)"
    by (simp add: run_all_checks_def)
  then show ?thesis
    using check_jurisdiction_issues_kind[of i "text"] check_missing_clauses_kind[of i "text" dt]
      check_ambiguous_language_kind[of i "text"] check_missing_signatures_kind[of i "text"]
      check_incomplete_info_kind[of i "text"] check_non_compliant_structures_kind[of i "text"]
      check_formatting_issues_kind[of i "text"]
    by (auto simp: issue_type_names_def)
qed

lemma count_types_total:
  "\<forall>i \<in> set is. issue_type i \<in> set issue_type_names \<Longrightarrow>
   sum_list (map (\<lambda>t. count_type t is) issue_type_names) = length is"
proof (induction "is")
  case Nil
  then show ?case by (simp add: count_type_def issue_type_names_def)
next
  case (Cons i "is")
  then have IH: "sum_list (map (\<lambda>t. count_type t is) issue_type_names) = length is"
    and ty: "issue_type i \<in> set issue_type_names" by simp_all
  have step: "\<And>t. count_type t (i # is) = (if issue_type i = t then 1 else 0) + count_type t is"
    by (simp add: count_type_def)
  have one: "sum_list (map (\<lambda>t. if issue_type i = t then 1 else (0::nat)) issue_type_names) = 1"
    using ty unfolding issue_type_names_def by auto
  have "sum_list (map (\<lambda>t. count_type t (i # is)) issue_type_names) =
        sum_list (map (\<lambda>t. if issue_type i = t then 1 else (0::nat)) issue_type_names) +
        sum_list (map (\<lambda>t. count_type t is) issue_type_names)"
    unfolding step by (simp add: sum_list_addf)
  with one IH show ?case by simp
qed

text \<open>
  Claim C9. The result of \<^const>\<open>analyze_document\<close> is internally consistent: the total is
  the length of the issue list; the grouping dictionary has one key per issue type that
  occurs, and the bucket of a type is the sublist of the issues of that type in their
  original order, so that the bucket sizes add up to the total; each count of the summary
  is the number of issues of the corresponding type, and the counts add up to the total.
\<close>

theorem analysis_consistent:
  "\<exists>a. analyze_document text dt = Inr a \<and>
     total_issues a = length (issues a) \<and>
     distinct (map fst (issues_by_type a)) \<and>
     (\<forall>t. map_of (issues_by_type a) t =
            (if \<exists>i \<in> set (issues a). issue_type i = t
             then Some (filter (\<lambda>i. issue_type i = t) (issues a)) else None)) \<and>
     sum_list (map (\<lambda>e. length (snd e)) (issues_by_type a)) = length (issues a) \<and>
     summary a =
       [(''jurisdiction_issues'', count_type ''jurisdiction_issue'' (issues a)),
        (''missing_clauses'', count_type ''missing_clause'' (issues a)),
        (''ambiguous_language'', count_type ''ambiguous_language'' (issues a)),
        (''missing_signatures'', count_type ''missing_signatures'' (issues a)),
        (''incomplete_info'', count_type ''incomplete_info'' (issues a)),
        (''non_compliant_structures'', count_type ''non_compliant_structure'' (issues a)),
        (''formatting_issues'', count_type ''formatting_issue'' (issues a))] \<and>
     sum_list (map snd (summary a)) = total_issues a"
proof -
  let ?is = "run_all_checks text dt"
  from analyze_document_value[of "text" dt] obtain a where
    a: "analyze_document text dt = Inr a" and
    tot: "total_issues a = length ?is" and iss: "issues a = ?is" and
    grp: "issues_by_type a = group_issues ?is []" and
    sm: "summary a =
       [(''jurisdiction_issues'', count_type ''jurisdiction_issue'' ?is),
        (''missing_clauses'', count_type ''missing_clause'' ?is),
        (''ambiguous_language'', count_type ''ambiguous_language'' ?is),
        (''missing_signatures'', count_type ''missing_signatures'' ?is),
        (''incomplete_info'', count_type ''incomplete_info'' ?is),
        (''non_compliant_structures'', count_type ''non_compliant_structure'' ?is),
        (''formatting_issues'', count_type ''formatting_issue'' ?is)]"
    by auto
  have d: "distinct (map fst (issues_by_type a))"
    unfolding grp by (rule group_issues_distinct) simp
  have m: "\<forall>t. map_of (issues_by_type a) t =
            (if \<exists>i \<in> set (issues a). issue_type i = t
             then Some (filter (\<lambda>i. issue_type i = t) (issues a)) else None)"
    unfolding grp iss by (simp only: group_issues_empty) simp
  have p: "sum_list (map (\<lambda>e. length (snd e)) (issues_by_type a)) = length (issues a)"
    unfolding grp iss by (simp add: group_issues_bucket_sum)
  have "\<forall>i \<in> set ?is. issue_type i \<in> set issue_type_names"
    using run_all_checks_kind by blast
  from count_types_total[OF this] have s: "sum_list (map snd (summary a)) = total_issues a"
    unfolding sm tot by (simp add: issue_type_names_def)
  from a tot iss d m p sm s show ?thesis by simp
qed

theorem analysis_consistent_witness:
  "map_sum id (\<lambda>a. (total_issues a, map (\<lambda>e. (fst e, length (snd e))) (issues_by_type a),
                     filter (\<lambda>e. snd e \<noteq> 0) (summary a)))
     (analyze_document '''' ''Other'') =
   Inr (3, [(''missing_signatures'', 1), (''formatting_issue'', 2)],
        [(''missing_signatures'', 1), (''formatting_issues'', 2)])"
proof -
  have v: "map_sum id (\<lambda>a. map issue_type (issues a)) (analyze_document '''' ''Other'') =
      Inr [''missing_signatures'', ''formatting_issue'', ''formatting_issue'']"
    by code_simp
  have g: "map_sum id (\<lambda>a. map (\<lambda>e. (fst e, length (snd e))) (issues_by_type a))
      (analyze_document '''' ''Other'') =
      Inr [(''missing_signatures'', 1), (''formatting_issue'', 2)]"
    by code_simp
  from analysis_consistent[of "''''" "''Other''"] obtain a where
    a: "analyze_document '''' ''Other'' = Inr a" and
    t: "total_issues a = length (issues a)" and
    s: "summary a =
       [(''jurisdiction_issues'', count_type ''jurisdiction_issue'' (issues a)),
        (''missing_clauses'', count_type ''missing_clause'' (issues a)),
        (''ambiguous_language'', count_type ''ambiguous_language'' (issues a)),
        (''missing_signatures'', count_type ''missing_signatures'' (issues a)),
        (''incomplete_info'', count_type ''incomplete_info'' (issues a)),
        (''non_compliant_structures'', count_type ''non_compliant_structure'' (issues a)),
        (''formatting_issues'', count_type ''formatting_issue'' (issues a))]"
    by blast
  from v a have ty: "map issue_type (issues a) =
      [''missing_signatures'', ''formatting_issue'', ''formatting_issue'']" by simp
  then have "length (map issue_type (issues a)) = 3" by simp
  then have len: "length (issues a) = 3" by simp
  have cnt: "\<And>k. count_type k (issues a) = length (filter (\<lambda>x. x = k) (map issue_type (issues a)))"
    by (simp add: count_type_def filter_map comp_def)
  have "filter (\<lambda>e. snd e \<noteq> 0) (summary a) =
      [(''missing_signatures'', 1), (''formatting_issues'', 2)]"
    unfolding s cnt ty by simp
  then show ?thesis
    using a g t len by simp
qed

subsection \<open>The report builder\<close>

lemma detect_process_nonempty:
  "\<exists>p. detect_process_from_documents ts = Inr p \<and> p \<in> fst ` set voting_types \<and> p \<noteq> ''''"
proof -
  from detect_process_first_max[of ts] obtain p vs pre post where
    r: "detect_process_from_documents ts = Inr p" and d: "voting_types = pre @ (p, vs) # post"
    by blast
  have mem: "(p, vs) \<in> set voting_types" by (subst d) simp
  then have "p \<in> fst ` set voting_types" by force
  moreover from mem have "p \<noteq> ''''" by (auto simp: voting_types_def)
  ultimately show ?thesis using r by blast
qed

lemma required_documents_no_process: "get_required_documents_for_process '''' = []"
  by (simp add: get_required_documents_for_process_def process_requirements_def)

lemma process_documents_value:
  "\<exists>res. process_documents docs = Inr res \<and> documents_analyzed res = docs \<and>
     is_detection_result res (map doc_type docs)"
proof (cases "docs = []")
  case True
  then show ?thesis
    by (simp add: process_documents_def is_detection_result_def missing_docs_of_def
          required_documents_no_process)
next
  case False
  from detect_process_nonempty[of "map doc_type docs"] obtain p where
    "detect_process_from_documents (map doc_type docs) = Inr p" by blast
  with False show ?thesis
    by (simp add: process_documents_def Let_def is_detection_result_def)
qed

lemma issues_found_value:
  "issues_found (generate_structured_report res) =
     concat (map (\<lambda>d. map (report_entry (doc_type d)) (issues (red_flag_analysis d)))
               (documents_analyzed res))"
  by (simp add: generate_structured_report_def Let_def)

lemma missing_document_value:
  "missing_document (generate_structured_report res) =
     (if process_detected res \<noteq> ''''
      then (case missing_documents res of [] \<Rightarrow> '''' | first # _ \<Rightarrow> first)
      else '''')"
  by (simp add: generate_structured_report_def Let_def split: list.splits)

lemma missing_document_detection:
  assumes "is_detection_result res uploaded"
  shows "missing_document (generate_structured_report res) =
     (case missing_documents res of [] \<Rightarrow> '''' | first # _ \<Rightarrow> first)"
proof (cases "process_detected res = ''''")
  case True
  with assms have "missing_documents res = []"
    by (simp add: is_detection_result_def missing_docs_of_def required_documents_no_process)
  with True show ?thesis by (simp add: missing_document_value)
next
  case False
  then show ?thesis by (simp add: missing_document_value)
qed

text \<open>
  Claim C5. For every input of \<^const>\<open>generate_structured_report\<close> the list
  \<^const>\<open>issues_found\<close> holds, document by document and in order, one entry per issue of
  each document's analysis, tagged with the document's type and with the section
  \<open>General\<close> where the issue has no location; its length is the sum of the issue counts.
  For every detection result, whatever the process and the uploaded types, the field
  \<^const>\<open>missing_document\<close> is the first missing document, or the empty string when
  nothing is missing; every result of \<^const>\<open>process_documents\<close> is a detection result.
\<close>

theorem generate_structured_report_spec:
  "issues_found (generate_structured_report res) =
     concat (map (\<lambda>d. map (\<lambda>i. \<lparr>entry_document = doc_type d,
                                 entry_section =
                                   (case location i of None \<Rightarrow> ''General'' | Some l \<Rightarrow> l),
                                 entry_issue = description i,
                                 entry_severity = severity i,
                                 entry_suggestion = suggestion i\<rparr>)
                        (issues (red_flag_analysis d)))
               (documents_analyzed res)) \<and>
   length (issues_found (generate_structured_report res)) =
     sum_list (map (\<lambda>d. length (issues (red_flag_analysis d))) (documents_analyzed res)) \<and>
   (is_detection_result res uploaded \<longrightarrow>
      missing_document (generate_structured_report res) =
        (case missing_documents res of [] \<Rightarrow> '''' | first # _ \<Rightarrow> first)) \<and>
   (\<exists>r. process_documents docs = Inr r \<and> documents_analyzed r = docs \<and>
      is_detection_result r (map doc_type docs) \<and>
      missing_document (generate_structured_report r) =
        (case missing_documents r of [] \<Rightarrow> '''' | first # _ \<Rightarrow> first))"
proof -
  have e: "\<And>d. report_entry (doc_type d) =
      (\<lambda>i. \<lparr>entry_document = doc_type d,
             entry_section = (case location i of None \<Rightarrow> ''General'' | Some l \<Rightarrow> l),
             entry_issue = description i,
             entry_severity = severity i,
             entry_suggestion = suggestion i\<rparr>)"
    by (rule ext) (simp add: report_entry_def)
  have 1: "issues_found (generate_structured_report res) =
     concat (map (\<lambda>d. map (\<lambda>i. \<lparr>entry_document = doc_type d,
                                 entry_section =
                                   (case location i of None \<Rightarrow> ''General'' | Some l \<Rightarrow> l),
                                 entry_issue = description i,
                                 entry_severity = severity i,
                                 entry_suggestion = suggestion i\<rparr>)
                        (issues (red_flag_analysis d)))
               (documents_analyzed res))"
    unfolding issues_found_value e ..
  have 2: "length (issues_found (generate_structured_report res)) =
     sum_list (map (\<lambda>d. length (issues (red_flag_analysis d))) (documents_analyzed res))"
    unfolding issues_found_value by (simp add: length_concat comp_def)
  have 3: "is_detection_result res uploaded \<longrightarrow>
      missing_document (generate_structured_report res) =
        (case missing_documents res of [] \<Rightarrow> '''' | first # _ \<Rightarrow> first)"
    using missing_document_detection by blast
  from process_documents_value[of docs] obtain r where
    r: "process_documents docs = Inr r" "documents_analyzed r = docs" and
    w: "is_detection_result r (map doc_type docs)"
    by blast
  from missing_document_detection[OF w] r w
  have 4: "\<exists>r. process_documents docs = Inr r \<and> documents_analyzed r = docs \<and>
      is_detection_result r (map doc_type docs) \<and>
      missing_document (generate_structured_report r) =
        (case missing_documents r of [] \<Rightarrow> '''' | first # _ \<Rightarrow> first)"
    by blast
  from 1 2 3 4 show ?thesis by blast
qed

theorem generate_structured_report_spec_witness:
  "process_documents example_documents = Inr example_results \<and>
   is_detection_result example_results
     [''Articles of Association'', ''Memorandum of Association''] \<and>
   length (issues_found (generate_structured_report example_results)) = 5 \<and>
   map (\<lambda>e. (entry_document e, entry_section e))
     (issues_found (generate_structured_report example_results)) =
     [(''Articles of Association'', ''General''),
      (''Articles of Association'', ''Position 0-3''),
      (''Memorandum of Association'', ''General''),
      (''Memorandum of Association'', ''General''),
      (''Memorandum of Association'', ''Position 5-8'')] \<and>
   missing_document (generate_structured_report example_results) =
     ''Incorporation Application''"
proof -
  have p: "process_documents example_documents = Inr example_results"
    by (simp add: process_documents_def Let_def example_documents_def example_document_def
          example_results_def detect_process_scores voting_types_def votes_def py_max_by_def
          max_step_def missing_docs_of_def get_required_documents_for_process_def
          process_requirements_def)
  have h: "is_detection_result example_results
     [''Articles of Association'', ''Memorandum of Association'']"
    by (simp add: is_detection_result_def example_results_def missing_docs_of_def
          get_required_documents_for_process_def process_requirements_def)
  from generate_structured_report_spec[of example_results
      "[''Articles of Association'', ''Memorandum of Association'']" example_documents] h
  have i: "issues_found (generate_structured_report example_results) =
     concat (map (\<lambda>d. map (\<lambda>i. \<lparr>entry_document = doc_type d,
                                 entry_section =
                                   (case location i of None \<Rightarrow> ''General'' | Some l \<Rightarrow> l),
                                 entry_issue = description i,
                                 entry_severity = severity i,
                                 entry_suggestion = suggestion i\<rparr>)
                        (issues (red_flag_analysis d)))
               (documents_analyzed example_results))"
    and m: "missing_document (generate_structured_report example_results) =
        (case missing_documents example_results of [] \<Rightarrow> '''' | first # _ \<Rightarrow> first)"
    by blast+
  have l: "length (issues_found (generate_structured_report example_results)) = 5"
    unfolding i
    by (simp add: example_results_def example_documents_def example_document_def)
  have t: "map (\<lambda>e. (entry_document e, entry_section e))
     (issues_found (generate_structured_report example_results)) =
     [(''Articles of Association'', ''General''),
      (''Articles of Association'', ''Position 0-3''),
      (''Memorandum of Association'', ''General''),
      (''Memorandum of Association'', ''General''),
      (''Memorandum of Association'', ''Position 5-8'')]"
    unfolding i
    by (simp add: example_results_def example_documents_def example_document_def
          example_issue_def)
  have md: "missing_document (generate_structured_report example_results) =
     ''Incorporation Application''"
    unfolding m by (simp add: example_results_def)
  from p h l t md show ?thesis by blast
qed

subsection \<open>The required clauses\<close>

lemma ci_substring_code: "str_in (lower c) (lower text) = ci_substring c text"
  by (simp add: str_in_iff ci_substring_def)

lemma check_missing_clauses_value:
  "check_missing_clauses text dt =
     (case map_of adgm_requirements dt of
        None \<Rightarrow> []
      | Some clauses \<Rightarrow>
          map missing_clause_issue (filter (\<lambda>c. \<not> ci_substring c text) clauses))"
  by (simp add: check_missing_clauses_def Let_def ci_substring_code split: option.splits)

lemma missing_clause_issue_inj:
  "missing_clause_issue c = missing_clause_issue c' \<longleftrightarrow> c = c'"
  by (auto simp: missing_clause_issue_def)

lemma adgm_requirements_distinct:
  "map_of adgm_requirements dt = Some clauses \<Longrightarrow> distinct clauses"
  by (auto simp: adgm_requirements_def split: if_splits)

lemma count_in_distinct:
  "distinct cs \<Longrightarrow> c \<in> set cs \<Longrightarrow>
   length (filter (\<lambda>x. P x \<and> x = c) cs) = (if P c then 1 else 0)"
proof (induction cs)
  case Nil
  then show ?case by simp
next
  case (Cons x cs)
  show ?case
  proof (cases "x = c")
    case True
    with Cons.prems have "c \<notin> set cs" by simp
    then have "filter (\<lambda>x. P x \<and> x = c) cs = []" by (auto simp: filter_empty_conv)
    with True show ?thesis by simp
  next
    case False
    with Cons show ?thesis by simp
  qed
qed

lemma filter_other_kind:
  assumes "\<And>i. i \<in> set xs \<Longrightarrow> issue_type i = k" and "k \<noteq> t"
  shows "filter (\<lambda>i. issue_type i = t) xs = []"
  using assms by (auto simp: filter_empty_conv)

lemma filter_own_kind:
  assumes "\<And>i. i \<in> set xs \<Longrightarrow> issue_type i = t"
  shows "filter (\<lambda>i. issue_type i = t) xs = xs"
  using assms by (simp add: filter_id_conv)

lemma run_all_checks_missing_clause:
  "filter (\<lambda>i. issue_type i = ''missing_clause'') (run_all_checks text dt) =
     check_missing_clauses text dt"
proof -
  have "filter (\<lambda>i. issue_type i = ''missing_clause'') (check_jurisdiction_issues text) = []"
    by (rule filter_other_kind[where k = "''jurisdiction_issue''"])
       (simp_all add: check_jurisdiction_issues_kind)
  moreover
  have "filter (\<lambda>i. issue_type i = ''missing_clause'') (check_ambiguous_language text) = []"
    by (rule filter_other_kind[where k = "''ambiguous_language''"])
       (simp_all add: check_ambiguous_language_kind)
  moreover
  have "filter (\<lambda>i. issue_type i = ''missing_clause'') (check_missing_signatures text) = []"
    by (rule filter_other_kind[where k = "''missing_signatures''"])
       (simp_all add: check_missing_signatures_kind)
  moreover
  have "filter (\<lambda>i. issue_type i = ''missing_clause'') (check_incomplete_info text) = []"
    by (rule filter_other_kind[where k = "''incomplete_info''"])
       (simp_all add: check_incomplete_info_kind)
  moreover
  have "filter (\<lambda>i. issue_type i = ''missing_clause'') (check_non_compliant_structures text) = []"
    by (rule filter_other_kind[where k = "''non_compliant_structure''"])
       (simp_all add: check_non_compliant_structures_kind)
  moreover
  have "filter (\<lambda>i. issue_type i = ''missing_clause'') (check_formatting_issues text) = []"
    by (rule filter_other_kind[where k = "''formatting_issue''"])
       (simp_all add: check_formatting_issues_kind)
  moreover
  have "filter (\<lambda>i. issue_type i = ''missing_clause'') (check_missing_clauses text dt) =
        check_missing_clauses text dt"
    by (rule filter_own_kind) (simp add: check_missing_clauses_kind)
  ultimately show ?thesis by (simp add: run_all_checks_def)
qed

text \<open>
  Claim C2. For a document type with a registered list of required clauses,
  \<^const>\<open>check_missing_clauses\<close> returns, in list order, the High-severity
  \<open>missing_clause\<close> issue of every listed clause that does not occur in the text as a
  case-insensitive substring: exactly one issue for each absent clause and none for a
  clause that is present. For a type without a registered list it returns no issue. The
  \<open>missing_clause\<close> issues of the analysis that \<^const>\<open>analyze_document\<close> returns are
  exactly these.
\<close>

theorem check_missing_clauses_spec:
  "(\<forall>clauses. map_of adgm_requirements dt = Some clauses \<longrightarrow>
      check_missing_clauses text dt =
        map missing_clause_issue (filter (\<lambda>c. \<not> ci_substring c text) clauses) \<and>
      (\<forall>c \<in> set clauses.
         length (filter (\<lambda>i. i = missing_clause_issue c) (check_missing_clauses text dt)) =
           (if ci_substring c text then 0 else 1))) \<and>
   (map_of adgm_requirements dt = None \<longrightarrow> check_missing_clauses text dt = []) \<and>
   (\<forall>i \<in> set (check_missing_clauses text dt).
      issue_type i = ''missing_clause'' \<and> severity i = ''High'') \<and>
   (\<exists>a. analyze_document text dt = Inr a \<and>
      filter (\<lambda>i. issue_type i = ''missing_clause'') (issues a) =
        check_missing_clauses text dt)"
proof -
  have 1: "\<forall>clauses. map_of adgm_requirements dt = Some clauses \<longrightarrow>
      check_missing_clauses text dt =
        map missing_clause_issue (filter (\<lambda>c. \<not> ci_substring c text) clauses) \<and>
      (\<forall>c \<in> set clauses.
         length (filter (\<lambda>i. i = missing_clause_issue c) (check_missing_clauses text dt)) =
           (if ci_substring c text then 0 else 1))"
  proof (intro allI impI)
    fix clauses assume s: "map_of adgm_requirements dt = Some clauses"
    then have v: "check_missing_clauses text dt =
        map missing_clause_issue (filter (\<lambda>c. \<not> ci_substring c text) clauses)"
      by (simp add: check_missing_clauses_value)
    have d: "distinct clauses" using s by (rule adgm_requirements_distinct)
    have "\<forall>c \<in> set clauses.
         length (filter (\<lambda>i. i = missing_clause_issue c) (check_missing_clauses text dt)) =
           (if ci_substring c text then 0 else 1)"
    proof
      fix c assume c: "c \<in> set clauses"
      have "length (filter (\<lambda>i. i = missing_clause_issue c) (check_missing_clauses text dt)) =
            length (filter (\<lambda>x. \<not> ci_substring x text \<and> x = c) clauses)"
        unfolding v by (simp add: filter_map comp_def missing_clause_issue_inj)
      also have "\<dots> = (if \<not> ci_substring c text then 1 else 0)"
        by (rule count_in_distinct[OF d c])
      finally show "length (filter (\<lambda>i. i = missing_clause_issue c)
            (check_missing_clauses text dt)) = (if ci_substring c text then 0 else 1)"
        by simp
    qed
    with v show "check_missing_clauses text dt =
        map missing_clause_issue (filter (\<lambda>c. \<not> ci_substring c text) clauses) \<and>
      (\<forall>c \<in> set clauses.
         length (filter (\<lambda>i. i = missing_clause_issue c) (check_missing_clauses text dt)) =
           (if ci_substring c text then 0 else 1))"
      by blast
  qed
  have 2: "map_of adgm_requirements dt = None \<longrightarrow> check_missing_clauses text dt = []"
    by (simp add: check_missing_clauses_value)
  have 3: "\<forall>i \<in> set (check_missing_clauses text dt).
      issue_type i = ''missing_clause'' \<and> severity i = ''High''"
    using check_missing_clauses_kind by blast
  from analyze_document_value[of "text" dt] obtain a where
    a: "analyze_document text dt = Inr a" and iss: "issues a = run_all_checks text dt"
    by auto
  have 4: "\<exists>a. analyze_document text dt = Inr a \<and>
      filter (\<lambda>i. issue_type i = ''missing_clause'') (issues a) =
        check_missing_clauses text dt"
    using a iss run_all_checks_missing_clause by auto
  from 1 2 3 4 show ?thesis by blast
qed

theorem check_missing_clauses_spec_witness:
  "map description
     (check_missing_clauses ''Share Capital Structure; registered office''
        ''Articles of Association'') =
     [''Missing required clause: ADGM jurisdiction'',
      ''Missing required clause: company objects'',
      ''Missing required clause: director appointment'',
      ''Missing required clause: shareholder rights''] \<and>
   ci_substring ''share capital structure'' ''Share Capital Structure; registered office'' \<and>
   \<not> ci_substring ''ADGM jurisdiction'' ''Share Capital Structure; registered office'' \<and>
   check_missing_clauses ''Share Capital Structure; registered office'' ''Lease'' = []"
proof -
  let ?t = "''Share Capital Structure; registered office''"
  let ?cs = "[''ADGM jurisdiction'', ''company objects'', ''share capital structure'',
        ''director appointment'', ''shareholder rights'', ''registered office'']"
  have v: "check_missing_clauses ?t ''Articles of Association'' =
      map missing_clause_issue [''ADGM jurisdiction'', ''company objects'',
        ''director appointment'', ''shareholder rights'']"
    by code_simp
  have s: "map_of adgm_requirements ''Articles of Association'' = Some ?cs"
    by (simp add: adgm_requirements_def)
  have n: "map_of adgm_requirements ''Lease'' = None"
    by (simp add: adgm_requirements_def)
  from check_missing_clauses_spec[of "''Articles of Association''" ?t] s
  have c: "\<forall>c \<in> set ?cs.
         length (filter (\<lambda>i. i = missing_clause_issue c)
           (check_missing_clauses ?t ''Articles of Association'')) =
           (if ci_substring c ?t then 0 else 1)"
    by blast
  from c have "length (filter (\<lambda>i. i = missing_clause_issue ''share capital structure'')
           (check_missing_clauses ?t ''Articles of Association'')) =
           (if ci_substring ''share capital structure'' ?t then 0 else 1)"
    by simp
  then have p: "ci_substring ''share capital structure'' ?t"
    unfolding v by (simp add: missing_clause_issue_inj split: if_splits)
  from c have "length (filter (\<lambda>i. i = missing_clause_issue ''ADGM jurisdiction'')
           (check_missing_clauses ?t ''Articles of Association'')) =
           (if ci_substring ''ADGM jurisdiction'' ?t then 0 else 1)"
    by simp
  then have q: "\<not> ci_substring ''ADGM jurisdiction'' ?t"
    unfolding v by (simp add: missing_clause_issue_inj split: if_splits)
  from check_missing_clauses_spec[of "''Lease''" ?t] n
  have e: "check_missing_clauses ?t ''Lease'' = []" by blast
  have m: "map description (check_missing_clauses ?t ''Articles of Association'') =
     [''Missing required clause: ADGM jurisdiction'',
      ''Missing required clause: company objects'',
      ''Missing required clause: director appointment'',
      ''Missing required clause: shareholder rights'']"
    unfolding v by (simp add: missing_clause_issue_def)
  from m p q e show ?thesis by blast
qed

subsection \<open>The empty text\<close>

lemma analyze_document_total: "\<exists>a. analyze_document text dt = Inr a"
  using analyze_document_value[of "text" dt] by blast

lemma match_checks_empty_text:
  "check_jurisdiction_issues '''' = [] \<and> check_ambiguous_language '''' = [] \<and>
   check_incomplete_info '''' = [] \<and> check_non_compliant_structures '''' = []"
  by code_simp

lemma absence_checks_empty_text:
  "length (check_missing_signatures '''') = 1 \<and> length (check_formatting_issues '''') = 2"
  by code_simp

lemma adgm_requirements_nonempty_clause:
  "map_of adgm_requirements dt = Some clauses \<Longrightarrow> c \<in> set clauses \<Longrightarrow> c \<noteq> ''''"
  by (auto simp: adgm_requirements_def split: if_splits)

lemma check_missing_clauses_empty_text:
  "check_missing_clauses '''' dt =
     map missing_clause_issue
       (case map_of adgm_requirements dt of None \<Rightarrow> [] | Some clauses \<Rightarrow> clauses)"
proof (cases "map_of adgm_requirements dt")
  case None
  then show ?thesis by (simp add: check_missing_clauses_def)
next
  case (Some clauses)
  have "filter (\<lambda>clause. \<not> str_in (lower clause) (lower '''')) clauses = clauses"
    using adgm_requirements_nonempty_clause[OF Some]
    by (auto simp: filter_id_conv lower_def)
  with Some show ?thesis by (simp add: check_missing_clauses_def)
qed

text \<open>
  Claim C6, as the code has it. \<^const>\<open>analyze_document\<close> returns normally for every
  text. On the empty text the checks that report matches (jurisdiction, ambiguous
  language, incomplete information, non-compliant structures) report nothing, while
  the checks that report an absence do report: one \<open>missing_clause\<close> issue for every
  required clause registered for the document type, one \<open>missing_signatures\<close> issue and
  two formatting issues. The analysis of the empty text therefore has three issues more
  than the document type has required clauses.
\<close>

theorem analyze_document_empty_text:
  "(\<exists>a. analyze_document text dt = Inr a) \<and>
   check_jurisdiction_issues '''' = [] \<and> check_ambiguous_language '''' = [] \<and>
   check_incomplete_info '''' = [] \<and> check_non_compliant_structures '''' = [] \<and>
   check_missing_clauses '''' dt =
     map missing_clause_issue
       (case map_of adgm_requirements dt of None \<Rightarrow> [] | Some clauses \<Rightarrow> clauses) \<and>
   length (check_missing_signatures '''') = 1 \<and>
   length (check_formatting_issues '''') = 2 \<and>
   (\<exists>a. analyze_document '''' dt = Inr a \<and>
      issues a = check_missing_clauses '''' dt @ check_missing_signatures '''' @
                 check_formatting_issues '''' \<and>
      total_issues a =
        length (case map_of adgm_requirements dt of None \<Rightarrow> [] | Some clauses \<Rightarrow> clauses) + 3)"
proof -
  from analyze_document_value[of "''''" dt] obtain a where
    a: "analyze_document '''' dt = Inr a" and iss: "issues a = run_all_checks '''' dt" and
    tot: "total_issues a = length (run_all_checks '''' dt)"
    by auto
  have r: "run_all_checks '''' dt = check_missing_clauses '''' dt @
      check_missing_signatures '''' @ check_formatting_issues ''''"
    using match_checks_empty_text by (simp add: run_all_checks_def)
  have "\<exists>a. analyze_document '''' dt = Inr a \<and>
      issues a = check_missing_clauses '''' dt @ check_missing_signatures '''' @
                 check_formatting_issues '''' \<and>
      total_issues a =
        length (case map_of adgm_requirements dt of None \<Rightarrow> [] | Some clauses \<Rightarrow> clauses) + 3"
    using a iss tot absence_checks_empty_text
    by (simp add: r check_missing_clauses_empty_text)
  with analyze_document_total[of "text" dt] match_checks_empty_text
    absence_checks_empty_text check_missing_clauses_empty_text[of dt]
  show ?thesis by blast
qed

theorem analyze_document_empty_text_counterexample:
  "map_sum id total_issues (analyze_document '''' ''Employment Contract'') = Inr 3 \<and>
   map_sum id total_issues (analyze_document '''' ''Employment Contract'') \<noteq> Inr 0"
proof -
  have "map_sum id total_issues (analyze_document '''' ''Employment Contract'') = Inr 3"
    by code_simp
  then show ?thesis by simp
qed

theorem analyze_document_empty_text_witness:
  "map_sum id (\<lambda>a. map issue_type (issues a)) (analyze_document '''' ''Board Resolution'') =
     Inr [''missing_clause'', ''missing_clause'', ''missing_clause'', ''missing_clause'',
          ''missing_clause'', ''missing_signatures'', ''formatting_issue'',
          ''formatting_issue''] \<and>
   map_sum id total_issues (analyze_document '''' ''Board Resolution'') = Inr 8"
proof -
  have k: "map issue_type (check_missing_signatures '''' @ check_formatting_issues '''') =
      [''missing_signatures'', ''formatting_issue'', ''formatting_issue'']"
    by code_simp
  have m: "map_of adgm_requirements ''Board Resolution'' =
      Some [''meeting date'', ''directors present'', ''resolution text'',
            ''voting results'', ''signature blocks'']"
    by (simp add: adgm_requirements_def)
  from analyze_document_empty_text[of "''''" "''Board Resolution''"] obtain a where
    a: "analyze_document '''' ''Board Resolution'' = Inr a" and
    i: "issues a = check_missing_clauses '''' ''Board Resolution'' @
          check_missing_signatures '''' @ check_formatting_issues ''''" and
    c: "check_missing_clauses '''' ''Board Resolution'' =
     map missing_clause_issue
       (case map_of adgm_requirements ''Board Resolution'' of None \<Rightarrow> []
        | Some clauses \<Rightarrow> clauses)" and
    t: "total_issues a =
        length (case map_of adgm_requirements ''Board Resolution'' of None \<Rightarrow> []
                | Some clauses \<Rightarrow> clauses) + 3"
    by blast
  have "map issue_type (issues a) =
      map issue_type (check_missing_clauses '''' ''Board Resolution'') @
      map issue_type (check_missing_signatures '''' @ check_formatting_issues '''')"
    unfolding i by simp
  then have "map issue_type (issues a) =
     [''missing_clause'', ''missing_clause'', ''missing_clause'', ''missing_clause'',
          ''missing_clause'', ''missing_signatures'', ''formatting_issue'',
          ''formatting_issue'']"
    unfolding k c m by (simp add: missing_clause_issue_def)
  moreover from t m have "total_issues a = 8" by simp
  ultimately show ?thesis using a by simp
qed

subsection \<open>The matcher and the matches of a pattern\<close>

lemma match_here_sound:
  "match_here ic p s = Some n \<Longrightarrow> n \<le> length s \<and> accepts ic p (take n s)"
proof (induction ic p s arbitrary: n rule: match_here.induct)
  case (1 ic s)
  then show ?case by simp
next
  case (2 ic c p)
  then show ?case by simp
next
  case (3 ic c p x xs)
  then show ?case by (auto split: if_splits)
next
  case (4 ic c p)
  then show ?case by simp
next
  case (5 ic c p x xs)
  then show ?case by (auto split: if_splits)
next
  case (6 ic c p)
  then show ?case by simp
next
  case (7 ic c p x xs)
  show ?case
  proof (cases "cls_ok ic c x")
    case False
    with 7 have "n \<le> length (x # xs) \<and> accepts ic p (take n (x # xs))" by simp
    then show ?thesis by (cases n) auto
  next
    case True
    show ?thesis
    proof (cases "match_here ic ((c, Star) # p) xs")
      case None
      with 7 True have "n \<le> length (x # xs) \<and> accepts ic p (take n (x # xs))" by simp
      then show ?thesis by (cases n) auto
    next
      case (Some k)
      with 7(1)[OF True Some] "7.prems" True show ?thesis by auto
    qed
  qed
next
  case (8 ic c p)
  then show ?case by simp
next
  case (9 ic c p x xs)
  show ?case
  proof (cases "cls_ok ic c x")
    case False
    with 9 have "n \<le> length (x # xs) \<and> accepts ic p (take n (x # xs))" by simp
    then show ?thesis by (cases n) auto
  next
    case True
    show ?thesis
    proof (cases "match_here ic p xs")
      case None
      with 9 True have "n \<le> length (x # xs) \<and> accepts ic p (take n (x # xs))" by simp
      then show ?thesis by (cases n) auto
    next
      case (Some k)
      with 9(1)[OF True Some] "9.prems" True show ?thesis by auto
    qed
  qed
qed

lemma match_here_skip_opt:
  "match_here ic p s = Some n \<Longrightarrow> \<exists>m. match_here ic ((c, Opt) # p) s = Some m"
  by (cases s) (auto split: option.splits)

lemma match_here_skip_star:
  "match_here ic p s = Some n \<Longrightarrow> \<exists>m. match_here ic ((c, Star) # p) s = Some m"
  by (cases s) (auto split: option.splits)

lemma match_here_complete:
  "accepts ic p w \<Longrightarrow> \<exists>n. match_here ic p (w @ r) = Some n"
proof (induction ic p w rule: accepts.induct)
  case (1 ic w)
  then show ?case by simp
next
  case (2 ic c p)
  then show ?case by simp
next
  case (3 ic c p x w)
  then show ?case by auto
next
  case (4 ic c p)
  then obtain n where "match_here ic p r = Some n" by auto
  then show ?case using match_here_skip_opt by simp
next
  case (5 ic c p x w)
  from "5.prems" have "accepts ic p (x # w) \<or> (cls_ok ic c x \<and> accepts ic p w)" by simp
  then show ?case
  proof
    assume "accepts ic p (x # w)"
    with 5 obtain n where "match_here ic p ((x # w) @ r) = Some n" by blast
    then show ?thesis using match_here_skip_opt by blast
  next
    assume a: "cls_ok ic c x \<and> accepts ic p w"
    with 5 obtain n where "match_here ic p (w @ r) = Some n" by blast
    with a show ?thesis by simp
  qed
next
  case (6 ic c p)
  then obtain n where "match_here ic p r = Some n" by auto
  then show ?case using match_here_skip_star by simp
next
  case (7 ic c p x w)
  from "7.prems" have "accepts ic p (x # w) \<or> (cls_ok ic c x \<and> accepts ic ((c, Star) # p) w)"
    by simp
  then show ?case
  proof
    assume "accepts ic p (x # w)"
    with 7 obtain n where "match_here ic p ((x # w) @ r) = Some n" by blast
    then show ?thesis using match_here_skip_star by blast
  next
    assume a: "cls_ok ic c x \<and> accepts ic ((c, Star) # p) w"
    with 7 obtain n where "match_here ic ((c, Star) # p) (w @ r) = Some n" by blast
    with a show ?thesis by simp
  qed
next
  case (8 ic c p)
  then show ?case by simp
next
  case (9 ic c p x w)
  then show ?case by auto
qed

text \<open>
  No pattern of the table matches the empty string, so \<^const>\<open>re_finditer_from\<close> never
  takes its branch for an empty match on them.
\<close>

lemma needs_char_no_empty_match: "needs_char p \<Longrightarrow> match_here ic p s \<noteq> Some 0"
  by (induction p rule: needs_char.induct) (cases s; auto)+

lemma red_flags_needs_char: "list_all needs_char (concat (map snd red_flags))"
  by code_simp

lemma red_flags_no_empty_match:
  "p \<in> set (concat (map snd red_flags)) \<Longrightarrow> match_here ic p s \<noteq> Some 0"
  using red_flags_needs_char needs_char_no_empty_match
  by (simp only: list_all_iff) blast

lemma re_search_from_iff:
  "re_search_from ic p s pos \<noteq> None \<longleftrightarrow> (\<exists>k \<le> length s. match_here ic p (drop k s) \<noteq> None)"
proof (induction s arbitrary: pos)
  case Nil
  then show ?case by simp
next
  case (Cons x xs)
  show ?case
  proof (cases "match_here ic p (x # xs)")
    case (Some n)
    then have "match_here ic p (drop 0 (x # xs)) \<noteq> None" by simp
    then have "\<exists>k \<le> length (x # xs). match_here ic p (drop k (x # xs)) \<noteq> None" by blast
    with Some show ?thesis by simp
  next
    case None
    have "(\<exists>k \<le> length (x # xs). match_here ic p (drop k (x # xs)) \<noteq> None) \<longleftrightarrow>
          (\<exists>k \<le> length xs. match_here ic p (drop k xs) \<noteq> None)"
    proof
      assume "\<exists>k \<le> length (x # xs). match_here ic p (drop k (x # xs)) \<noteq> None"
      then obtain k where k: "k \<le> length (x # xs)" "match_here ic p (drop k (x # xs)) \<noteq> None"
        by blast
      with None obtain j where "k = Suc j" by (cases k) auto
      with k show "\<exists>k \<le> length xs. match_here ic p (drop k xs) \<noteq> None" by auto
    next
      assume "\<exists>k \<le> length xs. match_here ic p (drop k xs) \<noteq> None"
      then obtain k where "k \<le> length xs" "match_here ic p (drop k xs) \<noteq> None" by blast
      then have "Suc k \<le> length (x # xs) \<and> match_here ic p (drop (Suc k) (x # xs)) \<noteq> None"
        by simp
      then show "\<exists>k \<le> length (x # xs). match_here ic p (drop k (x # xs)) \<noteq> None" by blast
    qed
    with None Cons.IH show ?thesis by simp
  qed
qed

lemma re_search_iff:
  "re_search ic p s \<noteq> None \<longleftrightarrow> (\<exists>pre m post. s = pre @ m @ post \<and> accepts ic p m)"
proof
  assume "re_search ic p s \<noteq> None"
  then have "\<exists>k \<le> length s. match_here ic p (drop k s) \<noteq> None"
    unfolding re_search_def re_search_from_iff .
  then obtain k n where k: "k \<le> length s" and m: "match_here ic p (drop k s) = Some n"
    by auto
  from match_here_sound[OF m] have "accepts ic p (take n (drop k s))" by simp
  moreover have "s = take k s @ take n (drop k s) @ drop n (drop k s)"
    by (simp only: append_take_drop_id)
  ultimately show "\<exists>pre m post. s = pre @ m @ post \<and> accepts ic p m" by blast
next
  assume "\<exists>pre m post. s = pre @ m @ post \<and> accepts ic p m"
  then obtain pre m post where s: "s = pre @ m @ post" and a: "accepts ic p m" by blast
  from match_here_complete[OF a, of post] obtain n where
    "match_here ic p (m @ post) = Some n" by blast
  then have "match_here ic p (drop (length pre) s) \<noteq> None" by (simp add: s)
  moreover have "length pre \<le> length s" by (simp add: s)
  ultimately show "re_search ic p s \<noteq> None"
    unfolding re_search_def re_search_from_iff by blast
qed

subsection \<open>The signature check\<close>

lemma signature_found_iff:
  "signature_found ps text_lower \<longleftrightarrow> (\<exists>p \<in> set ps. re_search True p text_lower \<noteq> None)"
  by (induction ps) auto

lemma run_all_checks_filter:
  "filter (\<lambda>i. issue_type i = t) (run_all_checks text dt) =
     (if t = ''jurisdiction_issue'' then check_jurisdiction_issues text else []) @
     (if t = ''missing_clause'' then check_missing_clauses text dt else []) @
     (if t = ''ambiguous_language'' then check_ambiguous_language text else []) @
     (if t = ''missing_signatures'' then check_missing_signatures text else []) @
     (if t = ''incomplete_info'' then check_incomplete_info text else []) @
     (if t = ''non_compliant_structure'' then check_non_compliant_structures text else []) @
     (if t = ''formatting_issue'' then check_formatting_issues text else [])"
proof -
  have k: "\<And>(xs :: issue list) k. (\<And>i. i \<in> set xs \<Longrightarrow> issue_type i = k) \<Longrightarrow>
      filter (\<lambda>i. issue_type i = t) xs = (if t = k then xs else [])"
  proof -
    fix xs :: "issue list" and k
    assume h: "\<And>i. i \<in> set xs \<Longrightarrow> issue_type i = k"
    show "filter (\<lambda>i. issue_type i = t) xs = (if t = k then xs else [])"
    proof (cases "t = k")
      case True
      with h show ?thesis by (simp add: filter_own_kind)
    next
      case False
      then have "k \<noteq> t" by simp
      from filter_other_kind[OF _ this, of xs] h False show ?thesis by simp
    qed
  qed
  show ?thesis
    unfolding run_all_checks_def filter_append
    by (simp only: k[OF conjunct1[OF check_jurisdiction_issues_kind]]
          k[OF conjunct1[OF check_missing_clauses_kind]]
          k[OF conjunct1[OF check_ambiguous_language_kind]]
          k[OF conjunct1[OF check_missing_signatures_kind]]
          k[OF conjunct1[OF check_incomplete_info_kind]]
          k[OF conjunct1[OF check_non_compliant_structures_kind]]
          k[OF conjunct1[OF check_formatting_issues_kind]])
qed

lemma lower_append: "lower (a @ b) = lower a @ lower b"
  by (simp add: lower_def)

lemma ci_substring_literal: "text = pre @ k @ post \<Longrightarrow> ci_substring k text"
  unfolding ci_substring_def by (auto simp: lower_append)

lemma re_search_matches_in: "re_search True p s \<noteq> None \<longleftrightarrow> matches_in p s"
  by (simp only: re_search_iff matches_in_def)

lemma signed_by_matches:
  assumes "ci_substring ''signed by'' text"
  shows "matches_in (lit ''signed'' @ ws1 @ lit ''by'') (lower text)"
proof -
  have l: "lower ''signed by'' = ''signed by''" by code_simp
  have a: "accepts True (lit ''signed'' @ ws1 @ lit ''by'') ''signed by''" by code_simp
  from assms l obtain pre post where "lower text = pre @ ''signed by'' @ post"
    unfolding ci_substring_def by auto
  with a show ?thesis unfolding matches_in_def by blast
qed

text \<open>
  Claim C7. \<^const>\<open>check_missing_signatures\<close> looks for the signature patterns in the
  lower-case copy of the text, letter case ignored: it returns no issue when one of the
  patterns matches somewhere in that copy, and otherwise exactly one High-severity
  \<open>missing_signatures\<close> issue; these are the \<open>missing_signatures\<close> issues of the
  analysis that \<^const>\<open>analyze_document\<close> returns. A text that contains \<open>signed by\<close>,
  as written or in any letter case that the lower-case copy folds, yields none.
\<close>

theorem check_missing_signatures_spec:
  "check_missing_signatures text =
     (if \<exists>p \<in> set (red_flag_patterns ''missing_signatures''). matches_in p (lower text)
      then []
      else [\<lparr>issue_type = ''missing_signatures'', severity = ''High'',
              description = ''Missing signature section'', location = None,
              suggestion = ''Add proper signature blocks with witness signatures'',
              adgm_reference = ''ADGM Companies Regulations 2020''\<rparr>]) \<and>
   (\<exists>a. analyze_document text dt = Inr a \<and>
      filter (\<lambda>i. issue_type i = ''missing_signatures'') (issues a) =
        check_missing_signatures text) \<and>
   (ci_substring ''signed by'' text \<longrightarrow> check_missing_signatures text = []) \<and>
   (text = pre @ ''signed by'' @ post \<longrightarrow> check_missing_signatures text = [])"
proof -
  have 1: "check_missing_signatures text =
     (if \<exists>p \<in> set (red_flag_patterns ''missing_signatures''). matches_in p (lower text)
      then []
      else [\<lparr>issue_type = ''missing_signatures'', severity = ''High'',
              description = ''Missing signature section'', location = None,
              suggestion = ''Add proper signature blocks with witness signatures'',
              adgm_reference = ''ADGM Companies Regulations 2020''\<rparr>])"
    unfolding check_missing_signatures_def Let_def signature_found_iff re_search_matches_in
    by simp
  from analyze_document_value[of "text" dt] obtain a where
    a: "analyze_document text dt = Inr a" and iss: "issues a = run_all_checks text dt"
    by auto
  have 2: "\<exists>a. analyze_document text dt = Inr a \<and>
      filter (\<lambda>i. issue_type i = ''missing_signatures'') (issues a) =
        check_missing_signatures text"
    using a iss by (simp add: run_all_checks_filter)
  have 3: "ci_substring ''signed by'' text \<longrightarrow> check_missing_signatures text = []"
  proof
    assume "ci_substring ''signed by'' text"
    then have "matches_in (lit ''signed'' @ ws1 @ lit ''by'') (lower text)"
      by (rule signed_by_matches)
    moreover have "lit ''signed'' @ ws1 @ lit ''by'' \<in> set (red_flag_patterns ''missing_signatures'')"
      by (simp add: red_flag_patterns_def red_flags_def)
    ultimately have
      "\<exists>p \<in> set (red_flag_patterns ''missing_signatures''). matches_in p (lower text)"
      by blast
    with 1 show "check_missing_signatures text = []" by simp
  qed
  have 4: "text = pre @ ''signed by'' @ post \<longrightarrow> check_missing_signatures text = []"
    using 3 ci_substring_literal by blast
  from 1 2 3 4 show ?thesis by blast
qed

theorem check_missing_signatures_spec_witness:
  "ci_substring ''signed by'' ''Signed by the directors; signed by the witness'' \<and>
   check_missing_signatures ''Signed by the directors; signed by the witness'' = [] \<and>
   check_missing_signatures ''The contract was signed by both parties'' = [] \<and>
   length (check_missing_signatures ''No signature here'') = 1 \<and>
   \<not> (\<exists>p \<in> set (red_flag_patterns ''missing_signatures'').
        matches_in p (lower ''No signature here''))"
proof -
  let ?t = "''Signed by the directors; signed by the witness''"
  have "str_in (lower ''signed by'') (lower ?t)" by code_simp
  then have c: "ci_substring ''signed by'' ?t" by (simp only: ci_substring_code)
  with check_missing_signatures_spec[of ?t dt] have e: "check_missing_signatures ?t = []"
    by blast
  have "''The contract was signed by both parties'' =
      ''The contract was '' @ ''signed by'' @ '' both parties''" by simp
  with check_missing_signatures_spec[of "''The contract was signed by both parties''" dt
      "''The contract was ''" "'' both parties''"]
  have e2: "check_missing_signatures ''The contract was signed by both parties'' = []"
    by blast
  have l: "length (check_missing_signatures ''No signature here'') = 1" by code_simp
  with check_missing_signatures_spec[of "''No signature here''" dt]
  have n: "\<not> (\<exists>p \<in> set (red_flag_patterns ''missing_signatures'').
      matches_in p (lower ''No signature here''))"
    by (auto split: if_splits)
  from c e e2 l n show ?thesis by blast
qed

subsection \<open>Where \<^verbatim>\<open>finditer\<close> reports a match\<close>





subsection \<open>The jurisdiction check\<close>







end
